theory Spec2Isabelle
  imports Complex_Main "HOL-Library.Log_Nat" "HOL-Library.Sublist"
begin

section \<open>Python values used by the agent\<close>

subsection \<open>Strings\<close>

text \<open>
  A Python \<open>str\<close> is a sequence of Unicode code points, so a string is a list of code
  point numbers: \<open>len\<close>, slicing and \<open>strip\<close> then count what Python counts, and the
  emoji the test-output parser looks for are single elements. \<open>ascii\<close> embeds an ASCII
  literal.
\<close>

type_synonym pystr = "nat list"

definition ascii :: "string \<Rightarrow> pystr" where
  "ascii s = map (of_char :: char \<Rightarrow> nat) s"

text \<open>
  \<open>str.isspace\<close> for one code point (CPython's \<open>_PyUnicode_IsWhitespace\<close>):
  U+0009..U+000D, U+001C..U+0020, U+0085, U+00A0, U+1680, U+2000..U+200A, U+2028,
  U+2029, U+202F, U+205F, U+3000.
\<close>

definition py_isspace :: "nat \<Rightarrow> bool" where
  "py_isspace c \<longleftrightarrow>
     (9 \<le> c \<and> c \<le> 13) \<or> (28 \<le> c \<and> c \<le> 32) \<or> c = 133 \<or> c = 160 \<or> c = 5760 \<or>
     (8192 \<le> c \<and> c \<le> 8202) \<or> c = 8232 \<or> c = 8233 \<or> c = 8239 \<or> c = 8287 \<or> c = 12288"

text \<open>\<open>s.strip()\<close>: leading and trailing whitespace removed.\<close>

definition strip :: "pystr \<Rightarrow> pystr" where
  "strip s = rev (dropWhile py_isspace (rev (dropWhile py_isspace s)))"

text \<open>\<open>sub in s\<close> for strings: \<open>sub\<close> occurs as a contiguous run of \<open>s\<close>.\<close>

fun str_contains :: "pystr \<Rightarrow> pystr \<Rightarrow> bool" where
  "str_contains sub [] = (sub = [])"
| "str_contains sub (c # cs) = (prefix sub (c # cs) \<or> str_contains sub cs)"

text \<open>\<open>s.split(d)\<close> for a one-character separator: the pieces between its occurrences; never an empty list.\<close>

fun split_on :: "nat \<Rightarrow> pystr \<Rightarrow> pystr list" where
  "split_on d [] = [[]]"
| "split_on d (c # cs) =
     (if c = d then [] # split_on d cs
      else (case split_on d cs of
              [] \<Rightarrow> [[c]]
            | l # ls \<Rightarrow> (c # l) # ls))"

text \<open>\<open>s.split('\n')\<close>.\<close>

definition split_lines :: "pystr \<Rightarrow> pystr list" where
  "split_lines s = split_on 10 s"

text \<open>\<open>s.endswith(suffix)\<close> is \<^const>\<open>suffix\<close>; \<open>s[:n]\<close> for \<open>n \<ge> 0\<close> is \<^const>\<open>take\<close>.\<close>

subsection \<open>Exceptions\<close>

text \<open>
  An exception is its class and the text \<open>str(e)\<close> gives for it. \<open>OtherError\<close> stands
  for the classes below \<open>Exception\<close> that collaborators outside the model raise (the
  reasoning oracle, a capability, \<open>json.loads\<close>).
\<close>

datatype exc_class =
    ZeroDivisionError
  | OverflowError
  | TypeError
  | KeyError
  | AttributeError
  | OtherError

datatype pyerror = Exc exc_class pystr

definition error_text :: "pyerror \<Rightarrow> pystr" where
  "error_text e = (case e of Exc c msg \<Rightarrow> msg)"

subsection \<open>Floating point\<close>

text \<open>
  The pass rate is computed with Python's true division, which yields a binary64
  float. A finite float is kept as a mantissa and an exponent, \<open>Finite m e\<close> standing
  for \<open>m * 2 ^ e\<close>; \<open>Infinite\<close> is an infinity of either sign (all the scorer does with
  one is to fail converting it). \<open>round_ratio n d\<close> is \<open>n / d\<close> (\<open>d > 0\<close>) rounded to the
  nearest binary64 value, ties to even: 53 significant bits, no unit in the last place
  below \<open>2 ^ - 1074\<close> (subnormals), and infinity from \<open>2 ^ 1024\<close> on.
\<close>

datatype pyfloat = Finite int int | Infinite

definition bit_length :: "int \<Rightarrow> int" where
  "bit_length n = int (floorlog 2 (nat \<bar>n\<bar>))"

definition ratio_ge_pow2 :: "int \<Rightarrow> int \<Rightarrow> int \<Rightarrow> bool" where
  "ratio_ge_pow2 n d k = (if 0 \<le> k then d * 2 ^ nat k \<le> n else d \<le> n * 2 ^ nat (- k))"

text \<open>The exponent \<open>k\<close> with \<open>2 ^ k \<le> n / d < 2 ^ (k + 1)\<close>, for positive \<open>n\<close> and \<open>d\<close>.\<close>

definition ilog2_ratio :: "int \<Rightarrow> int \<Rightarrow> int" where
  "ilog2_ratio n d =
     (let k = bit_length n - bit_length d in if ratio_ge_pow2 n d k then k else k - 1)"

text \<open>\<open>n / d\<close> rounded to the nearest integer, ties to even (\<open>n \<ge> 0\<close>, \<open>d > 0\<close>).\<close>

definition div_half_even :: "int \<Rightarrow> int \<Rightarrow> int" where
  "div_half_even n d =
     (let q = n div d; r = n mod d
      in if 2 * r < d then q else if d < 2 * r then q + 1 else if even q then q else q + 1)"

definition round_ratio :: "int \<Rightarrow> int \<Rightarrow> pyfloat" where
  "round_ratio n d =
     (if n = 0 then Finite 0 0
      else let a = \<bar>n\<bar>;
               e = max (ilog2_ratio a d - 52) (- 1074);
               m = (if 0 \<le> e then div_half_even a (d * 2 ^ nat e)
                    else div_half_even (a * 2 ^ nat (- e)) d)
           in if 0 \<le> e \<and> 2 ^ 1024 \<le> m * 2 ^ nat e then Infinite
              else Finite (sgn n * m) e)"

text \<open>
  \<open>a / b\<close> on two \<open>int\<close>s: correctly rounded; \<open>ZeroDivisionError\<close> for \<open>b = 0\<close>,
  \<open>OverflowError\<close> when the quotient is too large for a float.
\<close>

definition py_truediv :: "int \<Rightarrow> int \<Rightarrow> pyerror + pyfloat" where
  "py_truediv a b =
     (if b = 0 then Inl (Exc ZeroDivisionError (ascii ''division by zero''))
      else (case round_ratio (sgn b * a) \<bar>b\<bar> of
              Infinite \<Rightarrow>
                Inl (Exc OverflowError (ascii ''integer division result too large for a float''))
            | Finite m e \<Rightarrow> Inr (Finite m e)))"

text \<open>
  The product of two floats, rounded; it overflows to infinity without raising. (A
  product with an infinite factor is given as infinite; the scorer's factors are finite.)
\<close>

fun float_mul :: "pyfloat \<Rightarrow> pyfloat \<Rightarrow> pyfloat" where
  "float_mul (Finite m1 e1) (Finite m2 e2) =
     (let m = m1 * m2; e = e1 + e2
      in if 0 \<le> e then round_ratio (m * 2 ^ nat e) 1 else round_ratio m (2 ^ nat (- e)))"
| "float_mul _ _ = Infinite"

text \<open>\<open>int(x)\<close> on a float: truncation towards zero; \<open>OverflowError\<close> on an infinity.\<close>

fun py_int :: "pyfloat \<Rightarrow> pyerror + int" where
  "py_int (Finite m e) =
     Inr (if 0 \<le> e then m * 2 ^ nat e else sgn m * (\<bar>m\<bar> div 2 ^ nat (- e)))"
| "py_int Infinite = Inl (Exc OverflowError (ascii ''cannot convert float infinity to integer''))"

section \<open>Outcome evaluator (\<open>agent_state.py\<close>)\<close>

text \<open>
  The test summary dictionary, with the four keys the run capability's parser writes.
  The scorer reads every key with \<open>get\<close> and a default, so a dictionary that lacks a
  key is the record holding that default (\<open>0\<close>, \<open>False\<close>); \<open>no_test_results\<close> is the
  empty dictionary.
\<close>

record test_results =
  total_tests :: int
  passed_tests :: int
  failed_tests :: int
  has_test_output :: bool

definition no_test_results :: test_results where
  "no_test_results =
     \<lparr>total_tests = 0, passed_tests = 0, failed_tests = 0, has_test_output = False\<rparr>"

text \<open>\<open>int(40 * pass_rate)\<close> with \<open>pass_rate = passed_tests / total_tests\<close>.\<close>

definition scaled_test_points :: "int \<Rightarrow> int \<Rightarrow> pyerror + int" where
  "scaled_test_points passed tot =
     (case py_truediv passed tot of
        Inl err \<Rightarrow> Inl err
      | Inr pass_rate \<Rightarrow> py_int (float_mul (Finite 40 0) pass_rate))"

text \<open>\<open>AgentState._calculate_quality_score\<close>.\<close>

definition calculate_quality_score ::
  "int \<Rightarrow> pystr \<Rightarrow> pystr \<Rightarrow> test_results \<Rightarrow> pyerror + int" where
  "calculate_quality_score exit_code stdout stderr tr =
     (let score = (if exit_code = 0 then 30 else 0);
          score = score + (if strip stdout \<noteq> [] then 10 else 0);
          tested =
            (if has_test_output tr then
               (let score = score + 10
                in if 0 < total_tests tr then
                     (case scaled_test_points (passed_tests tr) (total_tests tr) of
                        Inl err \<Rightarrow> Inl err
                      | Inr pts \<Rightarrow> Inr (score + pts))
                   else Inr score)
             else Inr score)
      in (case tested of
            Inl err \<Rightarrow> Inl err
          | Inr score \<Rightarrow> Inr (min 100 (score + (if strip stderr = [] then 10 else 0)))))"

subsection \<open>Evaluating the pass rate\<close>






lemma ilog2_unit: "max (ilog2_ratio 1 1 - 52) (- 1074) = - 52"
  by (simp add: ilog2_ratio_def ratio_ge_pow2_def bit_length_def compute_floorlog)

lemma round_ratio_minus_one: "round_ratio (- 1) 1 = Finite (- 4503599627370496) (- 52)"
  by (simp add: round_ratio_def ilog2_unit Let_def div_half_even_def)

lemma ilog2_forty:
  "max (ilog2_ratio 180143985094819840 4503599627370496 - 52) (- 1074) = - 47"
  by (simp add: ilog2_ratio_def ratio_ge_pow2_def bit_length_def compute_floorlog)

lemma round_ratio_minus_forty:
  "round_ratio (- 180143985094819840) 4503599627370496 = Finite (- 5629499534213120) (- 47)"
  by (simp add: round_ratio_def ilog2_forty Let_def div_half_even_def)

lemma scaled_test_points_minus_one: "scaled_test_points (- 1) 1 = Inr (- 40)"
  by (simp add: scaled_test_points_def py_truediv_def round_ratio_minus_one
      round_ratio_minus_forty)

lemma strip_Nil: "strip [] = []"
  by (simp add: strip_def)

lemma strip_x_nonempty: "strip (ascii ''x'') \<noteq> []"
  by (simp add: strip_def ascii_def py_isspace_def)


subsection \<open>The range of the score\<close>

text \<open>
  C2 (the score lies within [0, 100] for every combination of inputs). The scorer
  clamps from above only. With exit status 1, empty standard output, standard error
  \<open>x\<close> and a test summary reporting detected tests, one test in total and \<open>- 1\<close>
  passed, the score is \<open>10 + int(40 * (-1 / 1)) = - 30\<close>.
\<close>

theorem quality_score_negative:
  "calculate_quality_score 1 [] (ascii ''x'')
     \<lparr>total_tests = 1, passed_tests = - 1, failed_tests = 2, has_test_output = True\<rparr>
   = Inr (- 30)"
  by (simp add: calculate_quality_score_def strip_Nil strip_x_nonempty
      scaled_test_points_minus_one)

text \<open>What does hold: the upper bound, and the flat bonus alone when no test is counted.\<close>

lemma quality_score_le_100: "calculate_quality_score c out err tr = Inr s \<Longrightarrow> s \<le> 100"
  by (auto simp: calculate_quality_score_def Let_def split: if_splits sum.splits)

lemma quality_score_no_tests_counted:
  "has_test_output tr \<Longrightarrow> total_tests tr \<le> 0 \<Longrightarrow>
   calculate_quality_score c out err tr =
     Inr ((if c = 0 then 30 else 0) + (if strip out \<noteq> [] then 10 else 0) + 10 +
          (if strip err = [] then 10 else 0))"
  by (simp add: calculate_quality_score_def Let_def)

subsection \<open>Scenario B\<close>




section \<open>Execution ledger (\<open>agent_state.py\<close>)\<close>

subsection \<open>Values exchanged with the oracle and the capabilities\<close>

text \<open>
  What \<open>json.loads\<close> can return, and what a decision carries as parameters (Python's
  \<open>None\<close>, \<open>bool\<close>, \<open>int\<close>, \<open>float\<close>, \<open>str\<close>, \<open>list\<close>, \<open>dict\<close>). A dictionary is
  the list of its items in insertion order.
\<close>

datatype json =
    JNull
  | JBool bool
  | JInt int
  | JFloat pyfloat
  | JStr pystr
  | JArr "json list"
  | JObj "(pystr \<times> json) list"

type_synonym pydict = "(pystr \<times> json) list"

text \<open>
  The envelope a capability returns, \<open>{success, result, error}\<close>, and the keys of its
  \<open>result\<close> dictionary that the control loop reads (\<open>None\<close>: the key is absent). The
  run capability's \<open>analysis["test_results"]\<close> is \<open>p_test_results\<close>. Durations and
  timestamps are left out throughout: they are read from the clock and nothing
  modelled here depends on them.
\<close>

record tool_payload =
  p_thinking_process :: "pystr option"
  p_solution_plan :: "pystr option"
  p_generated_code :: "pystr option"
  p_file_path :: "pystr option"
  p_content :: "pystr option"
  p_exit_code :: "int option"
  p_stdout :: "pystr option"
  p_stderr :: "pystr option"
  p_test_results :: "test_results option"

record tool_result =
  res_success :: bool
  res_result :: "tool_payload option"
  res_error :: "pystr option"

text \<open>The empty dictionary a tool call's result starts as; \<open>get("success", False)\<close> on it is false.\<close>

definition empty_result :: tool_result where
  "empty_result = \<lparr>res_success = False, res_result = None, res_error = None\<rparr>"

subsection \<open>Records of the ledger\<close>

record tool_call =
  call_tool_name :: json
  call_parameters :: json
  call_result :: tool_result
  call_reasoning :: json
  call_success :: bool

record execution_result =
  er_filename :: json
  er_exit_code :: int
  er_stdout :: pystr
  er_stderr :: pystr
  er_test_results :: test_results
  quality_score :: int

record file_info =
  fi_filename :: json
  fi_path :: pystr
  fi_content_type :: json
  fi_size :: nat
  fi_purpose :: pystr

text \<open>
  An entry of the thinking history, and of the list of issues. The source formats each
  into a line of text (a thought behind a clock time); an entry here is the message's
  kind with the values formatted into it. The names and reasons a decision supplies are
  kept as the values received: the ledger never reads them as text, except for the
  artifact name of which the fallback decision asks \<open>endswith\<close>.
\<close>

datatype issue =
    ToolFailed json pystr
  | ToolRaised json pystr

datatype thought =
    Satisfied json
  | SatisfactionUpdated int pystr
  | ConfidenceUpdated int pystr
  | ParseError pystr
  | InvalidTool json
  | Thinking pystr
  | GeneratedCode nat
  | ReadFile json nat

record agent_state =
  problem_statement :: pystr
  max_tool_calls :: int
  tool_calls :: "tool_call list"
  remaining_calls :: int
  files_created :: "file_info list"
  execution_results :: "execution_result list"
  best_solution :: "json option"
  best_quality_score :: int
  thinking_history :: "thought list"
  current_approach :: pystr
  identified_issues :: "issue list"
  satisfaction_level :: int
  confidence_level :: int
  is_satisfied :: bool
  stop_reason :: json
  lessons_learned :: "pystr list"

text \<open>\<open>AgentState.__init__\<close>.\<close>

definition new_agent_state :: "pystr \<Rightarrow> int \<Rightarrow> agent_state" where
  "new_agent_state problem max_calls =
     \<lparr>problem_statement = problem,
      max_tool_calls = max_calls,
      tool_calls = [],
      remaining_calls = max_calls,
      files_created = [],
      execution_results = [],
      best_solution = None,
      best_quality_score = 0,
      thinking_history = [],
      current_approach = [],
      identified_issues = [],
      satisfaction_level = 0,
      confidence_level = 0,
      is_satisfied = False,
      stop_reason = JStr [],
      lessons_learned = []\<rparr>"

subsection \<open>Operations\<close>

definition add_tool_call :: "agent_state \<Rightarrow> json \<Rightarrow> json \<Rightarrow> json \<Rightarrow> agent_state" where
  "add_tool_call s name params why =
     s\<lparr>tool_calls := tool_calls s @
          [\<lparr>call_tool_name = name, call_parameters = params, call_result = empty_result,
            call_reasoning = why, call_success = False\<rparr>],
       remaining_calls := remaining_calls s - 1\<rparr>"

definition update_last_tool_call :: "agent_state \<Rightarrow> tool_result \<Rightarrow> agent_state" where
  "update_last_tool_call s r =
     (if tool_calls s = [] then s
      else s\<lparr>tool_calls := butlast (tool_calls s) @
                [(last (tool_calls s))\<lparr>call_result := r, call_success := res_success r\<rparr>]\<rparr>)"

definition add_file ::
  "agent_state \<Rightarrow> json \<Rightarrow> pystr \<Rightarrow> json \<Rightarrow> pystr \<Rightarrow> nat \<Rightarrow> agent_state" where
  "add_file s filename path content_type purpose sz =
     s\<lparr>files_created := files_created s @
          [\<lparr>fi_filename = filename, fi_path = path, fi_content_type = content_type,
            fi_size = sz, fi_purpose = purpose\<rparr>]\<rparr>"

text \<open>
  \<open>add_execution_result\<close>: the score is computed first, so when the scorer raises
  nothing has been recorded.
\<close>

definition add_execution_result ::
  "agent_state \<Rightarrow> json \<Rightarrow> int \<Rightarrow> pystr \<Rightarrow> pystr \<Rightarrow> test_results \<Rightarrow> pyerror + agent_state"
  where
  "add_execution_result s filename exit_code stdout stderr tr =
     (case calculate_quality_score exit_code stdout stderr tr of
        Inl err \<Rightarrow> Inl err
      | Inr q \<Rightarrow>
          (let s1 = s\<lparr>execution_results := execution_results s @
                       [\<lparr>er_filename = filename, er_exit_code = exit_code,
                         er_stdout = stdout, er_stderr = stderr, er_test_results = tr,
                         quality_score = q\<rparr>]\<rparr>
           in Inr (if best_quality_score s1 < q
                   then s1\<lparr>best_quality_score := q, best_solution := Some filename\<rparr>
                   else s1)))"

definition add_thinking :: "agent_state \<Rightarrow> thought \<Rightarrow> agent_state" where
  "add_thinking s t = s\<lparr>thinking_history := thinking_history s @ [t]\<rparr>"

definition add_issue :: "agent_state \<Rightarrow> issue \<Rightarrow> agent_state" where
  "add_issue s issue =
     (if issue \<in> set (identified_issues s) then s
      else s\<lparr>identified_issues := identified_issues s @ [issue]\<rparr>)"

definition add_lesson :: "agent_state \<Rightarrow> pystr \<Rightarrow> agent_state" where
  "add_lesson s lesson =
     (if lesson \<in> set (lessons_learned s) then s
      else s\<lparr>lessons_learned := lessons_learned s @ [lesson]\<rparr>)"

definition update_satisfaction :: "agent_state \<Rightarrow> int \<Rightarrow> pystr \<Rightarrow> agent_state" where
  "update_satisfaction s level reason =
     (let s1 = s\<lparr>satisfaction_level := max 0 (min 100 level)\<rparr>
      in if reason \<noteq> [] then add_thinking s1 (SatisfactionUpdated level reason) else s1)"

definition update_confidence :: "agent_state \<Rightarrow> int \<Rightarrow> pystr \<Rightarrow> agent_state" where
  "update_confidence s level reason =
     (let s1 = s\<lparr>confidence_level := max 0 (min 100 level)\<rparr>
      in if reason \<noteq> [] then add_thinking s1 (ConfidenceUpdated level reason) else s1)"

definition mark_satisfied :: "agent_state \<Rightarrow> json \<Rightarrow> agent_state" where
  "mark_satisfied s reason =
     add_thinking (s\<lparr>is_satisfied := True, stop_reason := reason\<rparr>) (Satisfied reason)"

subsection \<open>The best-known solution\<close>

text \<open>
  A run of execution outcomes recorded into one ledger, each given as the arguments
  of \<open>add_execution_result\<close>; the run ends at the first outcome whose scoring raises.
\<close>

type_synonym outcome = "json \<times> int \<times> pystr \<times> pystr \<times> test_results"

definition record_outcome :: "agent_state \<Rightarrow> outcome \<Rightarrow> pyerror + agent_state" where
  "record_outcome s x =
     (case x of (filename, exit_code, stdout, stderr, tr) \<Rightarrow>
        add_execution_result s filename exit_code stdout stderr tr)"

definition outcome_score :: "outcome \<Rightarrow> pyerror + int" where
  "outcome_score x =
     (case x of (filename, exit_code, stdout, stderr, tr) \<Rightarrow>
        calculate_quality_score exit_code stdout stderr tr)"

fun record_outcomes :: "agent_state \<Rightarrow> outcome list \<Rightarrow> pyerror + agent_state" where
  "record_outcomes s [] = Inr s"
| "record_outcomes s (x # xs) =
     (case record_outcome s x of
        Inl err \<Rightarrow> Inl err
      | Inr s' \<Rightarrow> record_outcomes s' xs)"


lemma add_execution_result_best:
  assumes "add_execution_result s fn c out err tr = Inr s'"
  shows "\<exists>q. calculate_quality_score c out err tr = Inr q \<and>
             best_quality_score s' = max (best_quality_score s) q \<and>
             best_solution s' = (if best_quality_score s < q then Some fn else best_solution s)"
proof (cases "calculate_quality_score c out err tr")
  case (Inl e)
  with assms show ?thesis by (simp add: add_execution_result_def)
next
  case (Inr q)
  with assms have "s' = (let s1 = s\<lparr>execution_results := execution_results s @
                       [\<lparr>er_filename = fn, er_exit_code = c,
                         er_stdout = out, er_stderr = err, er_test_results = tr,
                         quality_score = q\<rparr>]\<rparr>
           in (if best_quality_score s1 < q
                   then s1\<lparr>best_quality_score := q, best_solution := Some fn\<rparr>
                   else s1))"
    by (simp add: add_execution_result_def Let_def)
  then show ?thesis using Inr by (simp add: Let_def max_def)
qed

lemma record_outcome_best:
  assumes "record_outcome s x = Inr s'"
  shows "\<exists>q. outcome_score x = Inr q \<and>
             best_quality_score s' = max (best_quality_score s) q \<and>
             best_solution s' = (if best_quality_score s < q then Some (fst x) else best_solution s)"
proof -
  obtain fn c out err tr where x: "x = (fn, c, out, err, tr)" by (cases x) auto
  with assms have "add_execution_result s fn c out err tr = Inr s'"
    by (simp add: record_outcome_def)
  then have *: "\<exists>q. calculate_quality_score c out err tr = Inr q \<and>
             best_quality_score s' = max (best_quality_score s) q \<and>
             best_solution s' = (if best_quality_score s < q then Some fn else best_solution s)"
    by (rule add_execution_result_best)
  have 1: "outcome_score x = calculate_quality_score c out err tr" and 2: "fst x = fn"
    by (simp_all add: x outcome_score_def)
  show ?thesis unfolding 1 2 by (rule *)
qed

lemma record_outcomes_append:
  "record_outcomes s (xs @ ys) =
     (case record_outcomes s xs of Inl err \<Rightarrow> Inl err | Inr s' \<Rightarrow> record_outcomes s' ys)"
  by (induction xs arbitrary: s) (auto split: sum.splits)

lemma record_outcomes_mono:
  "record_outcomes s xs = Inr s' \<Longrightarrow> best_quality_score s \<le> best_quality_score s'"
proof (induction xs arbitrary: s)
  case Nil
  then show ?case by simp
next
  case (Cons x xs)
  from Cons.prems obtain s1 where s1: "record_outcome s x = Inr s1"
    and rest: "record_outcomes s1 xs = Inr s'"
    by (auto split: sum.splits)
  from record_outcome_best [OF s1] have "best_quality_score s \<le> best_quality_score s1"
    by auto
  with Cons.IH [OF rest] show ?case by simp
qed

text \<open>
  C4: across any sequence of recorded outcomes the best-known score never decreases,
  and a later outcome replaces the best-known solution only when its score is strictly
  greater than the best score so far. Here \<open>xs\<close> are the earlier outcomes, \<open>x\<close> the
  later one, \<open>s'\<close> the ledger between them.
\<close>

theorem best_known_never_regresses:
  assumes "record_outcomes s (xs @ [x]) = Inr s''"
  shows "\<exists>s' q. record_outcomes s xs = Inr s' \<and> outcome_score x = Inr q \<and>
           best_quality_score s \<le> best_quality_score s' \<and>
           best_quality_score s' \<le> best_quality_score s'' \<and>
           best_quality_score s'' = max (best_quality_score s') q \<and>
           (best_solution s'' \<noteq> best_solution s' \<longrightarrow> best_quality_score s' < q)"
proof -
  from assms obtain s' where mid: "record_outcomes s xs = Inr s'"
    and last: "record_outcome s' x = Inr s''"
    by (auto simp: record_outcomes_append split: sum.splits)
  from record_outcome_best [OF last] obtain q where q: "outcome_score x = Inr q"
    and best: "best_quality_score s'' = max (best_quality_score s') q"
    and sol: "best_solution s'' = (if best_quality_score s' < q then Some (fst x) else best_solution s')"
    by blast
  from record_outcomes_mono [OF mid] have "best_quality_score s \<le> best_quality_score s'" .
  with mid q best sol show ?thesis by auto
qed

theorem best_known_never_regresses_witness:
  "\<exists>s' s'' q.
     record_outcomes (new_agent_state [] 15)
       ([(JStr (ascii ''a.py''), 1, [], [], no_test_results)] @
        [(JStr (ascii ''b.py''), 0, [], [], no_test_results)]) = Inr s'' \<and>
     record_outcomes (new_agent_state [] 15)
       [(JStr (ascii ''a.py''), 1, [], [], no_test_results)] = Inr s' \<and>
     outcome_score (JStr (ascii ''b.py''), 0, [], [], no_test_results) = Inr q \<and>
     best_quality_score s' \<le> best_quality_score s'' \<and>
     best_solution s'' \<noteq> best_solution s' \<and> best_quality_score s' < q"
proof -
  let ?s0 = "new_agent_state [] 15"
  let ?a = "(JStr (ascii ''a.py''), 1::int, [] :: pystr, [] :: pystr, no_test_results)"
  let ?b = "(JStr (ascii ''b.py''), 0::int, [] :: pystr, [] :: pystr, no_test_results)"
  have score_a: "calculate_quality_score 1 [] [] no_test_results = Inr 10"
    and score_b: "calculate_quality_score 0 [] [] no_test_results = Inr 40"
    by (simp_all add: calculate_quality_score_def strip_Nil no_test_results_def)
  obtain s' where s': "record_outcomes ?s0 [?a] = Inr s'"
    by (simp add: record_outcome_def add_execution_result_def score_a Let_def)
  obtain s'' where s'': "record_outcomes ?s0 ([?a] @ [?b]) = Inr s''"
    by (simp add: record_outcome_def add_execution_result_def score_a score_b Let_def)
  have sol': "best_solution s' = Some (JStr (ascii ''a.py''))"
    using s' by (auto simp: record_outcome_def add_execution_result_def score_a
        new_agent_state_def Let_def)
  have sol'': "best_solution s'' = Some (JStr (ascii ''b.py''))"
    using s'' by (auto simp: record_outcome_def add_execution_result_def score_a score_b
        new_agent_state_def Let_def)
  have ne: "best_solution s'' \<noteq> best_solution s'"
    by (simp add: sol' sol'' ascii_def)
  from best_known_never_regresses [OF s''] obtain t q
    where t: "record_outcomes ?s0 [?a] = Inr t"
      and q: "outcome_score ?b = Inr q"
      and le: "best_quality_score t \<le> best_quality_score s''"
      and imp: "best_solution s'' \<noteq> best_solution t \<longrightarrow> best_quality_score t < q"
    by blast
  from t s' have "t = s'" by simp
  with s' s'' q le imp ne show ?thesis by blast
qed

section \<open>Run capability: reading test results (\<open>tools/execution_tool.py\<close>)\<close>

text \<open>
  \<open>str.lower\<close> follows the Unicode case tables, which are no part of the repository;
  the functions that call it take it as the parameter \<open>lower\<close>. On ASCII text it is
  \<open>ascii_lower\<close>.
\<close>

definition ascii_lower :: "pystr \<Rightarrow> pystr" where
  "ascii_lower s = map (\<lambda>c. if 65 \<le> c \<and> c \<le> 90 then c + 32 else c) s"

text \<open>The two marks the parser looks for: U+2705 and U+274C.\<close>

definition check_mark :: pystr where
  "check_mark = [9989]"

definition cross_mark :: pystr where
  "cross_mark = [10060]"

text \<open>The body of the loop over the lines of the output, in \<open>ExecutionTool._parse_test_results\<close>.\<close>

definition parse_line :: "(pystr \<Rightarrow> pystr) \<Rightarrow> test_results \<Rightarrow> pystr \<Rightarrow> test_results" where
  "parse_line lower test_info line =
     (let line_lower = lower line
      in if str_contains check_mark line \<or> str_contains (ascii ''passed'') line_lower then
           test_info\<lparr>passed_tests := passed_tests test_info + 1, has_test_output := True\<rparr>
         else if str_contains cross_mark line \<or> str_contains (ascii ''failed'') line_lower then
           test_info\<lparr>failed_tests := failed_tests test_info + 1, has_test_output := True\<rparr>
         else if str_contains (ascii ''test case'') line_lower \<or>
                 str_contains (ascii ''testing'') line_lower then
           test_info\<lparr>has_test_output := True\<rparr>
         else test_info)"

definition parse_test_results :: "(pystr \<Rightarrow> pystr) \<Rightarrow> pystr \<Rightarrow> test_results" where
  "parse_test_results lower stdout =
     (let test_info = foldl (parse_line lower) no_test_results (split_lines stdout)
      in test_info\<lparr>total_tests := passed_tests test_info + failed_tests test_info\<rparr>)"

subsection \<open>The counts are consistent\<close>

definition counts_ok :: "test_results \<Rightarrow> bool" where
  "counts_ok t \<longleftrightarrow>
     0 \<le> passed_tests t \<and> 0 \<le> failed_tests t \<and>
     (has_test_output t \<or> passed_tests t + failed_tests t = 0)"

lemma counts_ok_parse_line: "counts_ok t \<Longrightarrow> counts_ok (parse_line lower t line)"
  by (simp add: counts_ok_def parse_line_def Let_def)

lemma counts_ok_foldl: "counts_ok t \<Longrightarrow> counts_ok (foldl (parse_line lower) t ls)"
  by (induction ls arbitrary: t) (simp_all add: counts_ok_parse_line)

lemma counts_ok_initial: "counts_ok no_test_results"
  by (simp add: counts_ok_def no_test_results_def)

text \<open>
  C10: for every captured standard output the parser returns non-negative passed and
  failed counts whose sum is \<open>total_tests\<close>, and reports \<open>has_test_output\<close> whenever
  \<open>total_tests > 0\<close>.
\<close>

theorem parse_test_results_consistent:
  "0 \<le> passed_tests (parse_test_results lower stdout) \<and>
   0 \<le> failed_tests (parse_test_results lower stdout) \<and>
   passed_tests (parse_test_results lower stdout) +
     failed_tests (parse_test_results lower stdout) =
     total_tests (parse_test_results lower stdout) \<and>
   (0 < total_tests (parse_test_results lower stdout) \<longrightarrow>
      has_test_output (parse_test_results lower stdout))"
proof -
  let ?t = "foldl (parse_line lower) no_test_results (split_lines stdout)"
  have "counts_ok ?t"
    by (rule counts_ok_foldl [OF counts_ok_initial])
  then show ?thesis
    by (auto simp: parse_test_results_def counts_ok_def Let_def)
qed

lemma split_lines_two: "split_lines (ascii ''ok'' @ 10 # ascii ''1 PASSED'') = [ascii ''ok'', ascii ''1 PASSED'']"
  by (simp add: split_lines_def ascii_def)

lemma parse_line_ok: "parse_line ascii_lower t (ascii ''ok'') = t"
  by (simp add: parse_line_def ascii_lower_def ascii_def check_mark_def cross_mark_def)

lemma parse_line_passed:
  "parse_line ascii_lower t (ascii ''1 PASSED'') =
     t\<lparr>passed_tests := passed_tests t + 1, has_test_output := True\<rparr>"
  by (simp add: parse_line_def ascii_lower_def ascii_def check_mark_def cross_mark_def)

theorem parse_test_results_consistent_witness:
  "0 < total_tests (parse_test_results ascii_lower (ascii ''ok'' @ 10 # ascii ''1 PASSED'')) \<and>
   has_test_output (parse_test_results ascii_lower (ascii ''ok'' @ 10 # ascii ''1 PASSED''))"
proof -
  have "total_tests (parse_test_results ascii_lower (ascii ''ok'' @ 10 # ascii ''1 PASSED'')) = 1"
    by (simp add: parse_test_results_def split_lines_two parse_line_ok parse_line_passed
        no_test_results_def Let_def)
  with parse_test_results_consistent [of ascii_lower "ascii ''ok'' @ 10 # ascii ''1 PASSED''"]
  show ?thesis by simp
qed

section \<open>File capabilities: the path of the target (\<open>tools/file_tools.py\<close>, \<open>tools/execution_tool.py\<close>)\<close>

text \<open>
  \<open>os.path.join\<close> on a POSIX system: a component that starts with the separator
  discards what was joined before it.
\<close>

definition sep :: nat where
  "sep = 47"

definition is_abs :: "pystr \<Rightarrow> bool" where
  "is_abs p \<longleftrightarrow> p \<noteq> [] \<and> hd p = sep"

definition path_join2 :: "pystr \<Rightarrow> pystr \<Rightarrow> pystr" where
  "path_join2 path b =
     (if is_abs b then b
      else if path = [] \<or> last path = sep then path @ b
      else path @ sep # b)"

definition os_path_join :: "pystr \<Rightarrow> pystr list \<Rightarrow> pystr" where
  "os_path_join a p = foldl path_join2 a p"

text \<open>
  The path each capability builds from its workspace root and the \<open>filename\<close> and
  \<open>directory\<close> parameters. \<open>ReadFileTool.execute\<close> and \<open>WriteFileTool.execute\<close>
  open that path; \<open>ExecutionTool.execute\<close> checks that it exists and hands it to
  \<open>_run_python_script\<close>. Whether a file exists is a matter of the file system and is
  not considered.
\<close>

definition read_file_path :: "pystr \<Rightarrow> pystr \<Rightarrow> pystr \<Rightarrow> pystr" where
  "read_file_path workspace_path filename directory =
     (if directory \<noteq> [] then os_path_join workspace_path [directory, filename]
      else os_path_join workspace_path [filename])"

definition write_file_path :: "pystr \<Rightarrow> pystr \<Rightarrow> pystr \<Rightarrow> pystr" where
  "write_file_path workspace_path filename directory =
     (if directory \<noteq> []
      then (let dir_path = os_path_join workspace_path [directory]
            in os_path_join dir_path [filename])
      else os_path_join workspace_path [filename])"

definition script_path :: "pystr \<Rightarrow> pystr \<Rightarrow> pystr \<Rightarrow> pystr" where
  "script_path workspace_path filename directory =
     (if directory \<noteq> [] then os_path_join workspace_path [directory, filename]
      else os_path_join workspace_path [filename])"

subsection \<open>The file the interpreter opens\<close>

text \<open>
  \<open>os.path.dirname\<close> on a POSIX system: the text up to the last separator, without
  the separators that end it, unless it is made of separators only.
\<close>

definition dirname :: "pystr \<Rightarrow> pystr" where
  "dirname p =
     (let head = rev (dropWhile (\<lambda>c. c \<noteq> sep) (rev p))
      in if head \<noteq> [] \<and> head \<noteq> replicate (length head) sep
         then rev (dropWhile (\<lambda>c. c = sep) (rev head))
         else head)"

text \<open>
  \<open>_run_python_script\<close> starts \<open>python script_path\<close> with the working directory
  \<open>os.path.dirname(script_path)\<close>. The interpreter reads a relative \<open>script_path\<close>
  from that working directory, so the file it opens, named from the directory the agent
  runs in, is the working directory joined with \<open>script_path\<close>; an absolute
  \<open>script_path\<close> is opened as it is. With an empty working directory the process is
  not started (\<open>subprocess.run\<close> raises \<open>FileNotFoundError\<close>, which the function
  catches) and no file is opened. Of the function this keeps the file that is opened.
\<close>

definition run_python_script :: "pystr \<Rightarrow> pystr option" where
  "run_python_script path =
     (let cwd = dirname path
      in if cwd = [] then None else Some (path_join2 cwd path))"

subsection \<open>Staying inside the workspace\<close>

text \<open>
  Where a path leads is read off its text, as \<open>os.path.normpath\<close> does: empty and
  \<open>.\<close> components count for nothing and \<open>..\<close> leaves the directory reached so far.
  A path is inside a root when both are absolute or both relative, the root's
  components start the path's, and nothing after them climbs. (Symbolic links are a
  matter of the file system and are not considered.)
\<close>

definition dot :: pystr where
  "dot = [46]"

definition dotdot :: pystr where
  "dotdot = [46, 46]"

definition norm_step :: "bool \<Rightarrow> pystr list \<Rightarrow> pystr \<Rightarrow> pystr list" where
  "norm_step absolute stack c =
     (if c = [] \<or> c = dot then stack
      else if c = dotdot then
        (if stack = [] then (if absolute then [] else [dotdot])
         else if last stack = dotdot then stack @ [dotdot]
         else butlast stack)
      else stack @ [c])"

definition norm_parts :: "pystr \<Rightarrow> pystr list" where
  "norm_parts p = foldl (norm_step (is_abs p)) [] (split_on sep p)"

definition inside :: "pystr \<Rightarrow> pystr \<Rightarrow> bool" where
  "inside rootdir p \<longleftrightarrow>
     is_abs p = is_abs rootdir \<and> prefix (norm_parts rootdir) (norm_parts p) \<and>
     dotdot \<notin> set (drop (length (norm_parts rootdir)) (norm_parts p))"

text \<open>A parameter is plain when it is relative and has no \<open>..\<close> component.\<close>

definition plain :: "pystr \<Rightarrow> bool" where
  "plain p \<longleftrightarrow> \<not> is_abs p \<and> dotdot \<notin> set (split_on sep p)"

lemma split_on_nonempty: "split_on d p \<noteq> []"
  by (induction p) (auto split: list.splits)

lemma split_on_append_sep: "split_on d (a @ d # b) = split_on d a @ split_on d b"
proof (induction a)
  case Nil
  show ?case by simp
next
  case (Cons x a)
  show ?case
  proof (cases "x = d")
    case True
    with Cons show ?thesis by simp
  next
    case False
    obtain l ls where l: "split_on d a = l # ls"
      using split_on_nonempty [of d a] by (cases "split_on d a") auto
    with False Cons show ?thesis by simp
  qed
qed

lemma split_on_snoc_sep: "split_on d (a @ [d]) = split_on d a @ [[]]"
  using split_on_append_sep [of d a "[]"] by simp

lemma foldl_norm_step_plain:
  "dotdot \<notin> set cs \<Longrightarrow>
   foldl (norm_step ab) st cs = st @ filter (\<lambda>c. c \<noteq> [] \<and> c \<noteq> dot) cs"
  by (induction cs arbitrary: st) (auto simp: norm_step_def)

lemma is_abs_join2: "\<not> is_abs b \<Longrightarrow> is_abs (path_join2 a b) = is_abs a"
  by (cases a) (auto simp: path_join2_def is_abs_def)

lemma comps_join2:
  assumes "\<not> is_abs b"
  shows "foldl (norm_step ab) [] (split_on sep (path_join2 a b)) =
         foldl (norm_step ab) (foldl (norm_step ab) [] (split_on sep a)) (split_on sep b)"
proof (cases "a = []")
  case True
  with assms show ?thesis by (simp add: path_join2_def norm_step_def)
next
  case False
  show ?thesis
  proof (cases "last a = sep")
    case True
    with False obtain a' where a: "a = a' @ [sep]"
      by (metis append_butlast_last_id)
    have "path_join2 a b = a' @ sep # b"
      using assms a by (simp add: path_join2_def)
    then show ?thesis
      by (simp add: a split_on_append_sep split_on_snoc_sep norm_step_def)
  next
    case nosep: False
    with False assms have "path_join2 a b = a @ sep # b"
      by (simp add: path_join2_def)
    then show ?thesis by (simp add: split_on_append_sep)
  qed
qed

lemma norm_parts_join2:
  assumes "plain b"
  shows "norm_parts (path_join2 a b) =
         norm_parts a @ filter (\<lambda>c. c \<noteq> [] \<and> c \<noteq> dot) (split_on sep b)"
proof -
  from assms have rel: "\<not> is_abs b" and nodd: "dotdot \<notin> set (split_on sep b)"
    by (simp_all add: plain_def)
  show ?thesis
    unfolding norm_parts_def is_abs_join2 [OF rel] comps_join2 [OF rel]
    by (rule foldl_norm_step_plain [OF nodd])
qed

lemma inside_join2:
  assumes "inside rootdir a" and "plain b"
  shows "inside rootdir (path_join2 a b)"
proof -
  let ?extra = "filter (\<lambda>c. c \<noteq> [] \<and> c \<noteq> dot) (split_on sep b)"
  from assms(2) have rel: "\<not> is_abs b" and nodd: "dotdot \<notin> set (split_on sep b)"
    by (simp_all add: plain_def)
  from assms(1) obtain rest where rest: "norm_parts a = norm_parts rootdir @ rest"
    and clean: "dotdot \<notin> set rest" and ab: "is_abs a = is_abs rootdir"
    by (auto simp: inside_def prefix_def)
  have "norm_parts (path_join2 a b) = norm_parts rootdir @ rest @ ?extra"
    by (simp add: norm_parts_join2 [OF assms(2)] rest)
  moreover have "dotdot \<notin> set (rest @ ?extra)"
    using clean nodd by auto
  ultimately show ?thesis
    using ab by (simp add: inside_def is_abs_join2 [OF rel])
qed

lemma inside_refl: "inside rootdir rootdir"
  by (simp add: inside_def)

lemma split_on_no_sep: "d \<notin> set t \<Longrightarrow> split_on d t = [t]"
  by (induction t) auto

lemma split_on_append_seps:
  "set xs \<subseteq> {d} \<Longrightarrow> split_on d (r @ xs) = split_on d r @ map (\<lambda>c. []) xs"
proof (induction xs rule: rev_induct)
  case Nil
  show ?case by simp
next
  case (snoc x xs)
  then have "x = d" by simp
  with snoc show ?case
    using split_on_snoc_sep [of d "r @ xs"] by simp
qed

text \<open>The components of a joined path are those of its parts.\<close>

lemma split_join2:
  assumes "\<not> is_abs b"
  shows "\<exists>X. split_on sep (path_join2 a b) = X @ split_on sep b \<and>
             filter (\<lambda>c. c \<noteq> [] \<and> c \<noteq> dot) X =
               filter (\<lambda>c. c \<noteq> [] \<and> c \<noteq> dot) (split_on sep a) \<and>
             set X \<subseteq> set (split_on sep a)"
proof (cases "a = []")
  case True
  with assms have "split_on sep (path_join2 a b) = [] @ split_on sep b"
    by (simp add: path_join2_def)
  with True show ?thesis by fastforce
next
  case False
  show ?thesis
  proof (cases "last a = sep")
    case True
    with False obtain a' where a: "a = a' @ [sep]"
      by (metis append_butlast_last_id)
    have "path_join2 a b = a' @ sep # b"
      using assms a by (simp add: path_join2_def)
    then have "split_on sep (path_join2 a b) = split_on sep a' @ split_on sep b"
      by (simp add: split_on_append_sep)
    moreover have "split_on sep a = split_on sep a' @ [[]]"
      by (simp add: a split_on_snoc_sep)
    ultimately show ?thesis by fastforce
  next
    case nosep: False
    with False assms have "path_join2 a b = a @ sep # b"
      by (simp add: path_join2_def)
    then have "split_on sep (path_join2 a b) = split_on sep a @ split_on sep b"
      by (simp add: split_on_append_sep)
    then show ?thesis by fastforce
  qed
qed

text \<open>
  The directory name is a prefix of the path, and its components are those of the path
  without the last one.
\<close>

lemma dirname_cases:
  obtains (none) "sep \<notin> set p" "dirname p = []"
  | (some) h t seps where "p = h @ sep # t" "sep \<notin> set t" "set seps \<subseteq> {sep}"
      "h @ [sep] = dirname p @ seps"
proof (cases "sep \<in> set p")
  case False
  then have "dropWhile (\<lambda>c. c \<noteq> sep) (rev p) = []"
    by (auto simp: dropWhile_eq_Nil_conv)
  then have "dirname p = []" by (simp add: dirname_def)
  with False show ?thesis by (rule none)
next
  case True
  define head where "head = rev (dropWhile (\<lambda>c. c \<noteq> sep) (rev p))"
  define t where "t = rev (takeWhile (\<lambda>c. c \<noteq> sep) (rev p))"
  have p: "p = head @ t"
    unfolding head_def t_def
    by (metis rev_append rev_rev_ident takeWhile_dropWhile_id)
  have t: "sep \<notin> set t"
    unfolding t_def using set_takeWhileD by fastforce
  have ne: "dropWhile (\<lambda>c. c \<noteq> sep) (rev p) \<noteq> []"
    using True by (simp add: dropWhile_eq_Nil_conv)
  then have "hd (dropWhile (\<lambda>c. c \<noteq> sep) (rev p)) = sep"
    using hd_dropWhile [of "\<lambda>c. c \<noteq> sep" "rev p"] by simp
  with ne have "last head = sep" and hne: "head \<noteq> []"
    by (simp_all add: head_def last_rev)
  then obtain h where h: "head = h @ [sep]"
    by (metis append_butlast_last_id)
  have pp: "p = h @ sep # t"
    using p by (simp add: h)
  define seps where "seps = rev (takeWhile (\<lambda>c. c = sep) (rev head))"
  have seps: "set seps \<subseteq> {sep}"
    unfolding seps_def using set_takeWhileD by fastforce
  have strip: "head = rev (dropWhile (\<lambda>c. c = sep) (rev head)) @ seps"
    unfolding seps_def by (metis rev_append rev_rev_ident takeWhile_dropWhile_id)
  show ?thesis
  proof (cases "head \<noteq> replicate (length head) sep")
    case True
    with hne have dn: "dirname p = rev (dropWhile (\<lambda>c. c = sep) (rev head))"
      by (simp add: dirname_def head_def Let_def)
    have "head = dirname p @ seps"
      unfolding dn by (rule strip)
    then have "h @ [sep] = dirname p @ seps"
      by (simp only: h [symmetric])
    with pp t seps show ?thesis by (rule some)
  next
    case False
    then have "dirname p = head"
      by (simp add: dirname_def head_def Let_def)
    with h have e: "h @ [sep] = dirname p @ []" by simp
    have "set ([] :: pystr) \<subseteq> {sep}" by simp
    from pp t this e show ?thesis by (rule some)
  qed
qed

lemma dirname_relative: "\<not> is_abs p \<Longrightarrow> \<not> is_abs (dirname p)"
proof (cases p rule: dirname_cases)
  case none
  then show ?thesis by (simp add: is_abs_def)
next
  case (some h t seps)
  assume rel: "\<not> is_abs p"
  show ?thesis
  proof
    assume "is_abs (dirname p)"
    then obtain r where "dirname p = sep # r"
      by (cases "dirname p") (auto simp: is_abs_def)
    with some(4) have "hd (h @ [sep]) = sep" by simp
    with some(1) have "is_abs p" by (cases h) (auto simp: is_abs_def)
    with rel show False by simp
  qed
qed

lemma dirname_absolute: "is_abs p \<Longrightarrow> dirname p \<noteq> []"
proof (cases p rule: dirname_cases)
  case none
  assume "is_abs p"
  with none(1) show ?thesis by (cases p) (auto simp: is_abs_def)
next
  case (some h t seps)
  assume ab: "is_abs p"
  show ?thesis
  proof
    assume "dirname p = []"
    with some(4) some(3) have "set (h @ [sep]) \<subseteq> {sep}" by simp
    then have all: "set h \<subseteq> {sep}" by simp
    define head where "head = rev (dropWhile (\<lambda>c. c \<noteq> sep) (rev p))"
    have "head = h @ [sep]"
      unfolding head_def some(1) using some(2)
      by (auto simp: dropWhile_append3 dropWhile_eq_Nil_conv)
    moreover from all have "h @ [sep] = replicate (length (h @ [sep])) sep"
      by (intro replicate_length_same [symmetric]) auto
    ultimately have "dirname p = head"
      by (simp add: dirname_def head_def Let_def)
    with \<open>head = h @ [sep]\<close> \<open>dirname p = []\<close> show False by simp
  qed
qed

lemma split_dirname:
  "filter (\<lambda>c. c \<noteq> [] \<and> c \<noteq> dot) (split_on sep (dirname p)) =
     filter (\<lambda>c. c \<noteq> [] \<and> c \<noteq> dot) (butlast (split_on sep p)) \<and>
   set (split_on sep (dirname p)) \<subseteq> insert [] (set (split_on sep p))"
proof (cases p rule: dirname_cases)
  case none
  then show ?thesis by (simp add: split_on_no_sep)
next
  case (some h t seps)
  have sp: "split_on sep p = split_on sep h @ [t]"
    by (simp add: some(1) split_on_append_sep split_on_no_sep [OF some(2)])
  have "split_on sep (h @ [sep]) = split_on sep (dirname p) @ map (\<lambda>c. []) seps"
    unfolding some(4) by (rule split_on_append_seps [OF some(3)])
  then have eq: "split_on sep h @ [[]] = split_on sep (dirname p) @ map (\<lambda>c. []) seps"
    by (simp add: split_on_snoc_sep)
  have "filter (\<lambda>c. c \<noteq> [] \<and> c \<noteq> dot) (split_on sep h @ [[]]) =
        filter (\<lambda>c. c \<noteq> [] \<and> c \<noteq> dot) (split_on sep (dirname p) @ map (\<lambda>c. []) seps)"
    by (simp only: eq)
  then have f: "filter (\<lambda>c. c \<noteq> [] \<and> c \<noteq> dot) (split_on sep (dirname p)) =
        filter (\<lambda>c. c \<noteq> [] \<and> c \<noteq> dot) (split_on sep h)"
    by (simp add: filter_empty_conv)
  have "set (split_on sep (dirname p)) \<subseteq> set (split_on sep h @ [[]])"
    unfolding eq by simp
  with f sp show ?thesis by auto
qed

lemma plain_norm_parts:
  "plain p \<Longrightarrow> norm_parts p = filter (\<lambda>c. c \<noteq> [] \<and> c \<noteq> dot) (split_on sep p)"
  using foldl_norm_step_plain [of "split_on sep p" "is_abs p" "[]"]
  by (simp add: plain_def norm_parts_def)

lemma plain_join2:
  assumes "plain a" and "plain b"
  shows "plain (path_join2 a b)"
proof -
  from assms(2) have rel: "\<not> is_abs b" by (simp add: plain_def)
  from split_join2 [OF rel, of a] obtain X where
    "split_on sep (path_join2 a b) = X @ split_on sep b" "set X \<subseteq> set (split_on sep a)"
    by blast
  with assms show ?thesis
    by (auto simp: plain_def is_abs_join2 [OF rel])
qed

lemma plain_dirname: "plain p \<Longrightarrow> plain (dirname p)"
  using split_dirname [of p] dirname_relative [of p]
  by (auto simp: plain_def dotdot_def)

lemma inside_plain:
  assumes "plain rootdir" and "plain c"
    and "prefix (filter (\<lambda>c. c \<noteq> [] \<and> c \<noteq> dot) (split_on sep rootdir))
                (filter (\<lambda>c. c \<noteq> [] \<and> c \<noteq> dot) (split_on sep c))"
  shows "inside rootdir c"
proof -
  have "dotdot \<notin> set (filter (\<lambda>c. c \<noteq> [] \<and> c \<noteq> dot) (split_on sep c))"
    using assms(2) by (simp add: plain_def)
  then have "dotdot \<notin> set (drop n (filter (\<lambda>c. c \<noteq> [] \<and> c \<noteq> dot) (split_on sep c)))" for n
    using in_set_dropD by fast
  with assms show ?thesis
    by (simp add: inside_def plain_norm_parts) (simp add: plain_def)
qed

text \<open>
  With a relative root that has no \<open>..\<close> component the working directory of the
  interpreter is inside the root.
\<close>

lemma inside_dirname_join2:
  assumes "plain rootdir" and "plain a" and "plain b"
    and "prefix (filter (\<lambda>c. c \<noteq> [] \<and> c \<noteq> dot) (split_on sep rootdir))
                (filter (\<lambda>c. c \<noteq> [] \<and> c \<noteq> dot) (split_on sep a))"
  shows "inside rootdir (dirname (path_join2 a b))"
proof -
  from assms(3) have rel: "\<not> is_abs b" by (simp add: plain_def)
  from split_join2 [OF rel, of a] obtain X where
    X: "split_on sep (path_join2 a b) = X @ split_on sep b"
    and fX: "filter (\<lambda>c. c \<noteq> [] \<and> c \<noteq> dot) X =
             filter (\<lambda>c. c \<noteq> [] \<and> c \<noteq> dot) (split_on sep a)"
    by blast
  have "butlast (split_on sep (path_join2 a b)) = X @ butlast (split_on sep b)"
    by (simp add: X butlast_append split_on_nonempty)
  with fX split_dirname [of "path_join2 a b"]
  have "filter (\<lambda>c. c \<noteq> [] \<and> c \<noteq> dot) (split_on sep (dirname (path_join2 a b))) =
        filter (\<lambda>c. c \<noteq> [] \<and> c \<noteq> dot) (split_on sep a) @
        filter (\<lambda>c. c \<noteq> [] \<and> c \<noteq> dot) (butlast (split_on sep b))"
    by simp
  with assms(4)
  have pre: "prefix (filter (\<lambda>c. c \<noteq> [] \<and> c \<noteq> dot) (split_on sep rootdir))
          (filter (\<lambda>c. c \<noteq> [] \<and> c \<noteq> dot) (split_on sep (dirname (path_join2 a b))))"
    by (simp add: prefix_prefix)
  have "plain (dirname (path_join2 a b))"
    by (rule plain_dirname [OF plain_join2 [OF assms(2,3)]])
  then show ?thesis
    using pre by (rule inside_plain [OF assms(1)])
qed

lemma filter_split_join2:
  assumes "\<not> is_abs b"
  shows "filter (\<lambda>c. c \<noteq> [] \<and> c \<noteq> dot) (split_on sep (path_join2 a b)) =
         filter (\<lambda>c. c \<noteq> [] \<and> c \<noteq> dot) (split_on sep a) @
         filter (\<lambda>c. c \<noteq> [] \<and> c \<noteq> dot) (split_on sep b)"
  using split_join2 [OF assms, of a] by auto

lemma run_relative_root:
  assumes "plain workspace_path" and "plain filename" and "plain directory"
    and "run_python_script (script_path workspace_path filename directory) = Some t"
  shows "inside workspace_path t"
proof -
  define a where "a = (if directory \<noteq> [] then path_join2 workspace_path directory
                       else workspace_path)"
  have script: "script_path workspace_path filename directory = path_join2 a filename"
    by (simp add: script_path_def os_path_join_def a_def)
  from assms(3) have rel: "\<not> is_abs directory" by (simp add: plain_def)
  have pa: "plain a"
    using assms(1,3) by (simp add: a_def plain_join2)
  have "prefix (filter (\<lambda>c. c \<noteq> [] \<and> c \<noteq> dot) (split_on sep workspace_path))
               (filter (\<lambda>c. c \<noteq> [] \<and> c \<noteq> dot) (split_on sep a))"
    by (simp add: a_def filter_split_join2 [OF rel])
  from inside_dirname_join2 [OF assms(1) pa assms(2) this]
  have cwd: "inside workspace_path (dirname (path_join2 a filename))" .
  have "plain (path_join2 a filename)"
    by (rule plain_join2 [OF pa assms(2)])
  from inside_join2 [OF cwd this]
  have "inside workspace_path
          (path_join2 (dirname (path_join2 a filename)) (path_join2 a filename))" .
  with assms(4) show ?thesis
    by (auto simp: run_python_script_def script Let_def split: if_splits)
qed

lemma run_absolute:
  assumes "is_abs path"
  shows "run_python_script path = Some path"
  using assms dirname_absolute [OF assms]
  by (simp add: run_python_script_def path_join2_def Let_def)

lemma is_abs_script_path:
  assumes "plain filename" and "plain directory"
  shows "is_abs (script_path workspace_path filename directory) = is_abs workspace_path"
  using assms
  by (simp add: script_path_def os_path_join_def plain_def is_abs_join2)


text \<open>
  C5, as stated (the target path never refers to a location outside the workspace
  root), fails: a \<open>filename\<close> with a \<open>..\<close> component climbs out of the root, an
  absolute \<open>filename\<close> or \<open>directory\<close> replaces the root altogether, and under a
  relative root that climbs far enough the interpreter, started in the script's own
  directory, opens a file outside the root even for a plain \<open>filename\<close> and
  \<open>directory\<close>.
\<close>

theorem path_escapes_workspace:
  "read_file_path (ascii ''workspace'') (ascii ''/etc/passwd'') [] = ascii ''/etc/passwd'' \<and>
   \<not> inside (ascii ''workspace'')
       (read_file_path (ascii ''workspace'') (ascii ''../x'') []) \<and>
   \<not> inside (ascii ''workspace'')
       (write_file_path (ascii ''workspace'') (ascii ''../x'') []) \<and>
   \<not> inside (ascii ''workspace'')
       (script_path (ascii ''workspace'') (ascii ''../../x'') (ascii ''solutions'')) \<and>
   run_python_script (script_path (ascii ''workspace'') (ascii ''/tmp/x.py'') (ascii ''solutions'')) =
     Some (ascii ''/tmp/x.py'') \<and>
   run_python_script (script_path (ascii ''../../../ws'') (ascii ''a.py'') (ascii ''solutions'')) =
     Some (ascii ''../../../ws/solutions/../../../ws/solutions/a.py'') \<and>
   \<not> inside (ascii ''../../../ws'')
       (ascii ''../../../ws/solutions/../../../ws/solutions/a.py'')"
  by (simp add: read_file_path_def write_file_path_def script_path_def os_path_join_def
      run_python_script_def dirname_def
      path_join2_def is_abs_def sep_def ascii_def inside_def norm_parts_def norm_step_def
      dot_def dotdot_def)

text \<open>
  C5, amended: for every \<open>filename\<close> and \<open>directory\<close> parameter that is a relative
  path without a \<open>..\<close> component, the target path of the read and write capabilities
  is the workspace root joined with them and lies inside that root. For the run
  capability, when the workspace root is absolute the file the interpreter opens is
  that joined path and lies inside the root; when the root is relative and has no
  \<open>..\<close> component, whatever file the interpreter opens lies inside the root.
\<close>

theorem plain_paths_stay_inside:
  assumes "plain filename" and "plain directory"
  shows "inside workspace_path (read_file_path workspace_path filename directory) \<and>
         inside workspace_path (write_file_path workspace_path filename directory) \<and>
         (is_abs workspace_path \<longrightarrow>
            run_python_script (script_path workspace_path filename directory) =
              Some (script_path workspace_path filename directory) \<and>
            inside workspace_path (script_path workspace_path filename directory)) \<and>
         (plain workspace_path \<longrightarrow>
            (\<forall>t. run_python_script (script_path workspace_path filename directory) = Some t \<longrightarrow>
                 inside workspace_path t))"
proof -
  have one: "inside workspace_path (path_join2 workspace_path filename)"
    by (rule inside_join2 [OF inside_refl assms(1)])
  have two: "inside workspace_path (path_join2 (path_join2 workspace_path directory) filename)"
    by (rule inside_join2 [OF inside_join2 [OF inside_refl assms(2)] assms(1)])
  have rw: "inside workspace_path (read_file_path workspace_path filename directory)"
    "inside workspace_path (write_file_path workspace_path filename directory)"
    "inside workspace_path (script_path workspace_path filename directory)"
    using one two
    by (simp_all add: read_file_path_def write_file_path_def script_path_def os_path_join_def)
  have ab: "run_python_script (script_path workspace_path filename directory) =
              Some (script_path workspace_path filename directory)"
    if "is_abs workspace_path"
    using that by (intro run_absolute) (simp add: is_abs_script_path [OF assms])
  have rel: "inside workspace_path t"
    if "plain workspace_path"
      and "run_python_script (script_path workspace_path filename directory) = Some t" for t
    using that(1) assms that(2) by (rule run_relative_root)
  from rw ab rel show ?thesis by blast
qed

theorem plain_paths_stay_inside_witness:
  "plain (ascii ''a.py'') \<and> plain (ascii ''solutions'') \<and>
   is_abs (ascii ''/ws'') \<and> plain (ascii ''ws'') \<and>
   read_file_path (ascii ''ws'') (ascii ''a.py'') (ascii ''solutions'') =
     ascii ''ws/solutions/a.py'' \<and>
   inside (ascii ''ws'') (read_file_path (ascii ''ws'') (ascii ''a.py'') (ascii ''solutions'')) \<and>
   inside (ascii ''ws'') (write_file_path (ascii ''ws'') (ascii ''a.py'') (ascii ''solutions'')) \<and>
   script_path (ascii ''/ws'') (ascii ''a.py'') (ascii ''solutions'') =
     ascii ''/ws/solutions/a.py'' \<and>
   run_python_script (script_path (ascii ''/ws'') (ascii ''a.py'') (ascii ''solutions'')) =
     Some (script_path (ascii ''/ws'') (ascii ''a.py'') (ascii ''solutions'')) \<and>
   inside (ascii ''/ws'') (script_path (ascii ''/ws'') (ascii ''a.py'') (ascii ''solutions'')) \<and>
   run_python_script (script_path (ascii ''ws'') (ascii ''a.py'') (ascii ''solutions'')) =
     Some (ascii ''ws/solutions/ws/solutions/a.py'') \<and>
   inside (ascii ''ws'') (ascii ''ws/solutions/ws/solutions/a.py'')"
proof -
  have p1: "plain (ascii ''a.py'')" and p2: "plain (ascii ''solutions'')"
    and p3: "plain (ascii ''ws'')"
    by (simp_all add: plain_def is_abs_def sep_def dotdot_def ascii_def)
  have a: "is_abs (ascii ''/ws'')"
    by (simp add: is_abs_def sep_def ascii_def)
  have r: "read_file_path (ascii ''ws'') (ascii ''a.py'') (ascii ''solutions'') =
     ascii ''ws/solutions/a.py''"
    by (simp add: read_file_path_def os_path_join_def path_join2_def is_abs_def sep_def
        ascii_def)
  have s: "script_path (ascii ''/ws'') (ascii ''a.py'') (ascii ''solutions'') =
     ascii ''/ws/solutions/a.py''"
    by (simp add: script_path_def os_path_join_def path_join2_def is_abs_def sep_def
        ascii_def)
  have t: "run_python_script (script_path (ascii ''ws'') (ascii ''a.py'') (ascii ''solutions'')) =
     Some (ascii ''ws/solutions/ws/solutions/a.py'')"
    by (simp add: run_python_script_def dirname_def script_path_def os_path_join_def
        path_join2_def is_abs_def sep_def ascii_def)
  from plain_paths_stay_inside [OF p1 p2, of "ascii ''ws''"] p3 t
  have rel: "inside (ascii ''ws'') (read_file_path (ascii ''ws'') (ascii ''a.py'') (ascii ''solutions''))"
    "inside (ascii ''ws'') (write_file_path (ascii ''ws'') (ascii ''a.py'') (ascii ''solutions''))"
    "inside (ascii ''ws'') (ascii ''ws/solutions/ws/solutions/a.py'')"
    by blast+
  from plain_paths_stay_inside [OF p1 p2, of "ascii ''/ws''"] a
  have ab: "run_python_script (script_path (ascii ''/ws'') (ascii ''a.py'') (ascii ''solutions'')) =
     Some (script_path (ascii ''/ws'') (ascii ''a.py'') (ascii ''solutions''))"
    "inside (ascii ''/ws'') (script_path (ascii ''/ws'') (ascii ''a.py'') (ascii ''solutions''))"
    by blast+
  from p1 p2 p3 a r s t rel ab show ?thesis
    by (intro conjI)
qed

section \<open>Decision oracle adapter (\<open>tool_selector.py\<close>)\<close>

subsection \<open>Python operations the adapter uses\<close>

text \<open>\<open>s.find(c)\<close> and \<open>s.rfind(c)\<close> for a one-character \<open>c\<close>: the index, or \<open>- 1\<close>.\<close>

fun py_find :: "nat \<Rightarrow> pystr \<Rightarrow> int" where
  "py_find c [] = - 1"
| "py_find c (x # xs) =
     (if x = c then 0 else (let r = py_find c xs in if r < 0 then - 1 else r + 1))"

definition py_rfind :: "nat \<Rightarrow> pystr \<Rightarrow> int" where
  "py_rfind c s =
     (let r = py_find c (rev s) in if r < 0 then - 1 else int (length s) - 1 - r)"

text \<open>\<open>s[a:b]\<close> for indices that are not negative.\<close>

definition slice :: "pystr \<Rightarrow> int \<Rightarrow> int \<Rightarrow> pystr" where
  "slice s a b = take (nat (b - a)) (drop (nat a) s)"

text \<open>\<open>str(n)\<close> for an \<open>int\<close>.\<close>

fun digits :: "nat \<Rightarrow> pystr" where
  "digits n = (if n < 10 then [48 + n] else digits (n div 10) @ [48 + n mod 10])"

definition str_of_int :: "int \<Rightarrow> pystr" where
  "str_of_int i = (if i < 0 then 45 # digits (nat (- i)) else digits (nat i))"

text \<open>\<open>type(v).__name__\<close>, for the text of an exception.\<close>

fun type_name :: "json \<Rightarrow> pystr" where
  "type_name JNull = ascii ''NoneType''"
| "type_name (JBool b) = ascii ''bool''"
| "type_name (JInt i) = ascii ''int''"
| "type_name (JFloat x) = ascii ''float''"
| "type_name (JStr s) = ascii ''str''"
| "type_name (JArr xs) = ascii ''list''"
| "type_name (JObj d) = ascii ''dict''"

definition quoted :: "pystr \<Rightarrow> pystr" where
  "quoted s = 39 # s @ [39]"

definition no_attribute :: "json \<Rightarrow> string \<Rightarrow> pyerror" where
  "no_attribute v name =
     Exc AttributeError
       (quoted (type_name v) @ ascii '' object has no attribute '' @ quoted (ascii name))"

text \<open>\<open>d.get(key)\<close>, \<open>d[key]\<close> and \<open>if key not in d: d[key] = v\<close> on a dictionary.\<close>

definition dict_get :: "pydict \<Rightarrow> pystr \<Rightarrow> json" where
  "dict_get d k = (case map_of d k of None \<Rightarrow> JNull | Some v \<Rightarrow> v)"

definition dict_item :: "pydict \<Rightarrow> pystr \<Rightarrow> pyerror + json" where
  "dict_item d k =
     (case map_of d k of None \<Rightarrow> Inl (Exc KeyError (quoted k)) | Some v \<Rightarrow> Inr v)"

definition dict_setdefault :: "pydict \<Rightarrow> pystr \<Rightarrow> json \<Rightarrow> pydict" where
  "dict_setdefault d k v = (if map_of d k = None then d @ [(k, v)] else d)"

text \<open>
  \<open>v in self.available_tools\<close>: membership in a dictionary hashes \<open>v\<close>, which raises
  for a list or a dictionary; the keys are the registered names, so only a string can
  be found.
\<close>

fun is_registered :: "pystr list \<Rightarrow> json \<Rightarrow> pyerror + bool" where
  "is_registered tools (JStr n) = Inr (n \<in> set tools)"
| "is_registered tools (JArr xs) =
     Inl (Exc TypeError (ascii ''unhashable type: '' @ quoted (ascii ''list'')))"
| "is_registered tools (JObj d) =
     Inl (Exc TypeError (ascii ''unhashable type: '' @ quoted (ascii ''dict'')))"
| "is_registered tools v = Inr False"

text \<open>\<open>name.endswith(suffix)\<close> on a value that need not be a string.\<close>

fun py_endswith :: "json \<Rightarrow> pystr \<Rightarrow> pyerror + bool" where
  "py_endswith (JStr s) sfx = Inr (suffix sfx s)"
| "py_endswith v sfx = Inl (no_attribute v ''endswith'')"

subsection \<open>Validation\<close>

text \<open>
  \<open>_validate_decision\<close>: \<open>Inr (Some d)\<close> is \<open>True\<close> with the decision as repaired in
  place, \<open>Inr None\<close> is \<open>False\<close>, \<open>Inl\<close> an exception; the ledger comes back with the
  thought the method may add.
\<close>

definition validate_decision ::
  "pystr list \<Rightarrow> json \<Rightarrow> agent_state \<Rightarrow> (pyerror + pydict option) \<times> agent_state" where
  "validate_decision available_tools decision state =
     (case decision of
        JObj d \<Rightarrow>
          (let action = dict_get d (ascii ''action'')
           in if action \<noteq> JStr (ascii ''use_tool'') \<and> action \<noteq> JStr (ascii ''stop'') then
                (Inr None, state)
              else if action = JStr (ascii ''use_tool'') then
                (let tool = dict_get d (ascii ''tool'')
                 in (case is_registered available_tools tool of
                       Inl err \<Rightarrow> (Inl err, state)
                     | Inr found \<Rightarrow>
                         if \<not> found then (Inr None, add_thinking state (InvalidTool tool))
                         else (Inr (Some
                                 (dict_setdefault
                                    (dict_setdefault d (ascii ''parameters'') (JObj []))
                                    (ascii ''reasoning'')
                                    (JStr (ascii ''No reasoning provided'')))),
                               state)))
              else (Inr (Some (dict_setdefault d (ascii ''reasoning'')
                                 (JStr (ascii ''Agent decided to stop'')))),
                    state))
      | _ \<Rightarrow> (Inr None, state))"

subsection \<open>The deterministic fallback\<close>

definition think_decision :: "pystr \<Rightarrow> pystr \<Rightarrow> pystr \<Rightarrow> pydict" where
  "think_decision focus context why =
     [(ascii ''action'', JStr (ascii ''use_tool'')),
      (ascii ''tool'', JStr (ascii ''think'')),
      (ascii ''parameters'',
         JObj [(ascii ''focus'', JStr focus), (ascii ''context'', JStr context)]),
      (ascii ''reasoning'', JStr why)]"

definition execute_decision :: "json \<Rightarrow> pydict" where
  "execute_decision filename =
     [(ascii ''action'', JStr (ascii ''use_tool'')),
      (ascii ''tool'', JStr (ascii ''execute_code'')),
      (ascii ''parameters'',
         JObj [(ascii ''filename'', filename), (ascii ''goal'', JStr (ascii ''test the solution''))]),
      (ascii ''reasoning'', JStr (ascii ''Fallback: Testing the generated solution''))]"

definition stop_decision :: "pystr \<Rightarrow> pydict" where
  "stop_decision why =
     [(ascii ''action'', JStr (ascii ''stop'')), (ascii ''reasoning'', JStr why)]"

definition generate_decision :: pydict where
  "generate_decision =
     [(ascii ''action'', JStr (ascii ''use_tool'')),
      (ascii ''tool'', JStr (ascii ''generate_code'')),
      (ascii ''parameters'',
         JObj [(ascii ''approach'', JStr (ascii ''improved solution'')),
               (ascii ''based_on'', JStr (ascii ''previous attempts''))]),
      (ascii ''reasoning'', JStr (ascii ''Fallback: Generating improved solution''))]"

text \<open>The last three rules of \<open>_get_fallback_decision\<close>, which look at quality and budget.\<close>

definition fallback_on_quality :: "agent_state \<Rightarrow> pydict" where
  "fallback_on_quality state =
     (if best_quality_score state < 70 then
        think_decision (ascii ''solution improvement'')
          (ascii ''Current quality is '' @ str_of_int (best_quality_score state) @ ascii ''/100'')
          (ascii ''Fallback: Analyzing ways to improve solution quality'')
      else if remaining_calls state \<le> 1 \<or> 80 \<le> best_quality_score state then
        stop_decision
          (ascii ''Fallback: Stopping due to '' @
           (if remaining_calls state \<le> 1 then ascii ''call limit''
            else ascii ''good quality achieved''))
      else generate_decision)"

text \<open>\<open>_get_fallback_decision\<close>.\<close>

definition get_fallback_decision :: "agent_state \<Rightarrow> pyerror + pydict" where
  "get_fallback_decision state =
     (if files_created state = [] then
        Inr (think_decision (ascii ''problem analysis'') (ascii ''Starting problem analysis'')
               (ascii ''Fallback: Starting with problem analysis''))
      else if files_created state \<noteq> [] \<and> execution_results state = [] then
        (let latest_file = last (files_created state)
         in (case py_endswith (fi_filename latest_file) (ascii ''.py'') of
               Inl err \<Rightarrow> Inl err
             | Inr is_python \<Rightarrow>
                 if is_python then Inr (execute_decision (fi_filename latest_file))
                 else Inr (fallback_on_quality state)))
      else Inr (fallback_on_quality state))"

subsection \<open>Reading the response as text\<close>

definition stop_indicators :: "pystr list" where
  "stop_indicators =
     [ascii ''stop'', ascii ''satisfied'', ascii ''complete'', ascii ''finished'', ascii ''done'']"

text \<open>\<open>_interpret_text_response\<close>; the tools are tried in the order of the dictionary.\<close>

definition interpret_text_response ::
  "(pystr \<Rightarrow> pystr) \<Rightarrow> pystr list \<Rightarrow> pystr \<Rightarrow> agent_state \<Rightarrow> pyerror + pydict" where
  "interpret_text_response lower available_tools response state =
     (let response_lower = lower response
      in if list_ex (\<lambda>indicator. str_contains indicator response_lower) stop_indicators then
           Inr (stop_decision
                  (ascii ''Interpreted from response: '' @ take 100 response @ ascii ''...''))
         else (case find (\<lambda>tool_name. str_contains tool_name response_lower) available_tools of
                 Some tool_name \<Rightarrow>
                   Inr [(ascii ''action'', JStr (ascii ''use_tool'')),
                        (ascii ''tool'', JStr tool_name),
                        (ascii ''parameters'', JObj []),
                        (ascii ''reasoning'',
                           JStr (ascii ''Interpreted '' @ tool_name @ ascii '' from response: '' @
                                 take 100 response @ ascii ''...''))]
               | None \<Rightarrow> get_fallback_decision state))"

subsection \<open>Parsing the response\<close>

text \<open>
  \<open>json.loads\<close> is the standard library's: the functions below take it as the
  parameter \<open>loads\<close>, the value parsed or the exception raised. The body of the
  \<open>try\<close> in \<open>_parse_llm_decision\<close> comes first, then the method with its handler.
\<close>

definition try_parse_llm_decision ::
  "(pystr \<Rightarrow> pystr) \<Rightarrow> (pystr \<Rightarrow> pyerror + json) \<Rightarrow> pystr list \<Rightarrow> pystr \<Rightarrow> agent_state \<Rightarrow>
   (pyerror + pydict) \<times> agent_state" where
  "try_parse_llm_decision lower loads available_tools llm_response state =
     (let response_text = strip llm_response;
          json_start = py_find 123 response_text;
          json_end = py_rfind 125 response_text + 1
      in if 0 \<le> json_start \<and> json_start < json_end then
           (case loads (slice response_text json_start json_end) of
              Inl err \<Rightarrow> (Inl err, state)
            | Inr decision \<Rightarrow>
                (case validate_decision available_tools decision state of
                   (Inl err, state1) \<Rightarrow> (Inl err, state1)
                 | (Inr (Some d), state1) \<Rightarrow> (Inr d, state1)
                 | (Inr None, state1) \<Rightarrow>
                     (interpret_text_response lower available_tools response_text state1,
                      state1)))
         else (interpret_text_response lower available_tools response_text state, state))"

definition parse_llm_decision ::
  "(pystr \<Rightarrow> pystr) \<Rightarrow> (pystr \<Rightarrow> pyerror + json) \<Rightarrow> pystr list \<Rightarrow> pystr \<Rightarrow> agent_state \<Rightarrow>
   (pyerror + pydict) \<times> agent_state" where
  "parse_llm_decision lower loads available_tools llm_response state =
     (case try_parse_llm_decision lower loads available_tools llm_response state of
        (Inr d, state1) \<Rightarrow> (Inr d, state1)
      | (Inl err, state1) \<Rightarrow>
          (let state2 = add_thinking state1 (ParseError (error_text err))
           in (get_fallback_decision state2, state2)))"

text \<open>
  The prompt is rendered from the ledger. Of all that goes into it only
  \<open>get_recent_actions\<close> can raise: it walks the items of the parameters of each of the
  last \<open>count\<close> invocations (of all of them when there are fewer, and when \<open>count\<close>
  is 0), and parameters that are not a dictionary have no \<open>items\<close>. Its lines go into
  the prompt and nowhere else, so what is kept of it here is whether it returns.
\<close>

fun is_dict :: "json \<Rightarrow> bool" where
  "is_dict (JObj d) = True"
| "is_dict v = False"

definition get_recent_actions :: "agent_state \<Rightarrow> nat \<Rightarrow> pyerror + unit" where
  "get_recent_actions state count =
     (let recent = (if 0 < count \<and> count \<le> length (tool_calls state)
                    then drop (length (tool_calls state) - count) (tool_calls state)
                    else tool_calls state)
      in (case find (\<lambda>call. \<not> is_dict (call_parameters call)) recent of
            Some call \<Rightarrow> Inl (no_attribute (call_parameters call) ''items'')
          | None \<Rightarrow> Inr ()))"

text \<open>
  \<open>decide_next_action\<close>. The rendered prompt is handed to the oracle; \<open>oracle\<close> is the
  answer of \<open>llm_client.complete\<close> to the prompt of this ledger, or the exception the
  call raises.
\<close>

definition decide_next_action ::
  "(pystr \<Rightarrow> pystr) \<Rightarrow> (pystr \<Rightarrow> pyerror + json) \<Rightarrow> pystr list \<Rightarrow>
   (agent_state \<Rightarrow> pyerror + pystr) \<Rightarrow> agent_state \<Rightarrow> (pyerror + pydict) \<times> agent_state" where
  "decide_next_action lower loads available_tools oracle state =
     (case get_recent_actions state 3 of
        Inl err \<Rightarrow> (Inl err, state)
      | Inr prompt \<Rightarrow>
          (case oracle state of
             Inl err \<Rightarrow> (Inl err, state)
           | Inr llm_response \<Rightarrow>
               parse_llm_decision lower loads available_tools llm_response state))"

subsection \<open>The fallback on a ledger with artifacts and no execution\<close>

text \<open>Two ledgers after one successful write, of a note and of a Python file.\<close>

definition ledger_with_notes :: agent_state where
  "ledger_with_notes =
     add_file (new_agent_state [] 15) (JStr (ascii ''notes.txt''))
       (ascii ''workspace/notes.txt'') (JStr (ascii ''log'')) (ascii ''Tool call: write_file'') 5"

definition ledger_with_solution :: agent_state where
  "ledger_with_solution =
     add_file (new_agent_state [] 15) (JStr (ascii ''a.py''))
       (ascii ''workspace/a.py'') (JStr (ascii ''solution'')) (ascii ''Tool call: write_file'') 5"

lemma ledger_with_notes_fields:
  "files_created ledger_with_notes \<noteq> []"
  "fi_filename (last (files_created ledger_with_notes)) = JStr (ascii ''notes.txt'')"
  "execution_results ledger_with_notes = []"
  "best_quality_score ledger_with_notes = 0"
  by (simp_all add: ledger_with_notes_def add_file_def new_agent_state_def)

lemma ledger_with_solution_fields:
  "files_created ledger_with_solution \<noteq> []"
  "fi_filename (last (files_created ledger_with_solution)) = JStr (ascii ''a.py'')"
  "execution_results ledger_with_solution = []"
  by (simp_all add: ledger_with_solution_def add_file_def new_agent_state_def)

lemma notes_not_python: "\<not> suffix (ascii ''.py'') (ascii ''notes.txt'')"
  by (simp add: suffix_to_prefix ascii_def)

lemma solution_is_python: "suffix (ascii ''.py'') (ascii ''a.py'')"
  by (simp add: suffix_to_prefix ascii_def)

lemma quality_zero_text:
  "ascii ''Current quality is '' @ str_of_int 0 @ ascii ''/100'' = ascii ''Current quality is 0/100''"
  by (simp add: str_of_int_def ascii_def)

text \<open>
  C8, as stated (with an artifact recorded and no execution yet, the fallback decides
  to run the most recent artifact), fails when that artifact is not a Python file:
  after writing \<open>notes.txt\<close> the fallback moves on to its quality rule and decides to
  think.
\<close>

theorem fallback_skips_non_python:
  "files_created ledger_with_notes \<noteq> [] \<and>
   execution_results ledger_with_notes = [] \<and>
   get_fallback_decision ledger_with_notes =
     Inr (think_decision (ascii ''solution improvement'')
            (ascii ''Current quality is 0/100'')
            (ascii ''Fallback: Analyzing ways to improve solution quality''))"
  by (simp add: get_fallback_decision_def ledger_with_notes_fields notes_not_python
      fallback_on_quality_def quality_zero_text)

text \<open>
  C8, amended: whenever the fallback is consulted on a ledger with at least one
  artifact and no execution, and the name of the most recently created artifact ends
  in \<open>.py\<close>, it decides to invoke \<open>execute_code\<close> on that artifact.
\<close>

theorem fallback_runs_latest_python_file:
  assumes "files_created state \<noteq> []"
    and "execution_results state = []"
    and "fi_filename (last (files_created state)) = JStr name"
    and "suffix (ascii ''.py'') name"
  shows "get_fallback_decision state =
           Inr [(ascii ''action'', JStr (ascii ''use_tool'')),
                (ascii ''tool'', JStr (ascii ''execute_code'')),
                (ascii ''parameters'',
                   JObj [(ascii ''filename'', JStr name),
                         (ascii ''goal'', JStr (ascii ''test the solution''))]),
                (ascii ''reasoning'', JStr (ascii ''Fallback: Testing the generated solution''))]"
  using assms by (simp add: get_fallback_decision_def execute_decision_def)

theorem fallback_runs_latest_python_file_witness:
  "get_fallback_decision ledger_with_solution =
     Inr [(ascii ''action'', JStr (ascii ''use_tool'')),
          (ascii ''tool'', JStr (ascii ''execute_code'')),
          (ascii ''parameters'',
             JObj [(ascii ''filename'', JStr (ascii ''a.py'')),
                   (ascii ''goal'', JStr (ascii ''test the solution''))]),
          (ascii ''reasoning'', JStr (ascii ''Fallback: Testing the generated solution''))]"
  by (rule fallback_runs_latest_python_file
        [OF ledger_with_solution_fields(1) ledger_with_solution_fields(3)
            ledger_with_solution_fields(2) solution_is_python])

subsection \<open>Every decision returned is a validated one\<close>

text \<open>
  The capabilities the control loop registers with the adapter
  (\<open>FullyAutonomousCodingAgent.__init__\<close>), in the order of its dictionary.
\<close>

definition agent_tools :: "pystr list" where
  "agent_tools =
     [ascii ''think'', ascii ''generate_code'', ascii ''read_file'', ascii ''write_file'',
      ascii ''execute_code'']"

text \<open>
  A decision as the control loop expects it: a stop with its reasoning, or the use of
  a registered capability with parameters and reasoning.
\<close>

definition valid_decision :: "pystr list \<Rightarrow> pydict \<Rightarrow> bool" where
  "valid_decision available_tools d \<longleftrightarrow>
     (dict_get d (ascii ''action'') = JStr (ascii ''stop'') \<and>
      map_of d (ascii ''reasoning'') \<noteq> None) \<or>
     (dict_get d (ascii ''action'') = JStr (ascii ''use_tool'') \<and>
      (\<exists>n \<in> set available_tools. dict_get d (ascii ''tool'') = JStr n) \<and>
      map_of d (ascii ''parameters'') \<noteq> None \<and>
      map_of d (ascii ''reasoning'') \<noteq> None)"

text \<open>The artifact names of a ledger are strings, as \<open>FileInfo\<close> declares them.\<close>

fun is_text :: "json \<Rightarrow> bool" where
  "is_text (JStr s) = True"
| "is_text v = False"

definition text_artifacts :: "agent_state \<Rightarrow> bool" where
  "text_artifacts state = list_all (\<lambda>f. is_text (fi_filename f)) (files_created state)"

lemma valid_think_decision:
  "ascii ''think'' \<in> set tools \<Longrightarrow> valid_decision tools (think_decision focus context why)"
  unfolding valid_decision_def think_decision_def dict_get_def
  by (rule disjI2) (simp add: ascii_def)

lemma valid_execute_decision:
  "ascii ''execute_code'' \<in> set tools \<Longrightarrow> valid_decision tools (execute_decision filename)"
  unfolding valid_decision_def execute_decision_def dict_get_def
  by (rule disjI2) (simp add: ascii_def)

lemma valid_generate_decision:
  "ascii ''generate_code'' \<in> set tools \<Longrightarrow> valid_decision tools generate_decision"
  unfolding valid_decision_def generate_decision_def dict_get_def
  by (rule disjI2) (simp add: ascii_def)

lemma valid_stop_decision: "valid_decision tools (stop_decision why)"
  unfolding valid_decision_def stop_decision_def dict_get_def
  by (rule disjI1) (simp add: ascii_def)

lemma valid_fallback_on_quality:
  assumes "ascii ''think'' \<in> set tools" and "ascii ''generate_code'' \<in> set tools"
  shows "valid_decision tools (fallback_on_quality state)"
  using assms
  by (simp add: fallback_on_quality_def valid_think_decision valid_stop_decision
      valid_generate_decision)

lemma py_endswith_text: "is_text v \<Longrightarrow> \<exists>b. py_endswith v sfx = Inr b"
  by (cases v) simp_all

lemma valid_fallback:
  assumes "ascii ''think'' \<in> set tools" and "ascii ''generate_code'' \<in> set tools"
    and "ascii ''execute_code'' \<in> set tools" and "text_artifacts state"
  shows "\<exists>d. get_fallback_decision state = Inr d \<and> valid_decision tools d"
proof (cases "files_created state = []")
  case True
  then show ?thesis
    by (simp add: get_fallback_decision_def valid_think_decision assms(1))
next
  case False
  then have "last (files_created state) \<in> set (files_created state)"
    by simp
  with assms(4) have "is_text (fi_filename (last (files_created state)))"
    by (simp add: text_artifacts_def list_all_iff)
  then obtain b where b: "py_endswith (fi_filename (last (files_created state))) (ascii ''.py'') = Inr b"
    using py_endswith_text by blast
  show ?thesis
    using False b assms(1-3)
    by (simp add: get_fallback_decision_def Let_def valid_fallback_on_quality
        valid_execute_decision)
qed

lemma valid_interpret_text_response:
  assumes "ascii ''think'' \<in> set tools" and "ascii ''generate_code'' \<in> set tools"
    and "ascii ''execute_code'' \<in> set tools" and "text_artifacts state"
  shows "\<exists>d. interpret_text_response lower tools response state = Inr d \<and>
             valid_decision tools d"
proof (cases "list_ex (\<lambda>indicator. str_contains indicator (lower response)) stop_indicators")
  case True
  then show ?thesis
    by (simp add: interpret_text_response_def valid_stop_decision)
next
  case no_stop: False
  show ?thesis
  proof (cases "find (\<lambda>tool_name. str_contains tool_name (lower response)) tools")
    case None
    with no_stop show ?thesis
      using valid_fallback [OF assms] by (simp add: interpret_text_response_def)
  next
    case (Some t)
    then have "t \<in> set tools"
      by (auto simp: find_Some_iff)
    then have "valid_decision tools
        [(ascii ''action'', JStr (ascii ''use_tool'')),
         (ascii ''tool'', JStr t),
         (ascii ''parameters'', JObj []),
         (ascii ''reasoning'',
            JStr (ascii ''Interpreted '' @ t @ ascii '' from response: '' @
                  take 100 response @ ascii ''...''))]"
      unfolding valid_decision_def dict_get_def
      by (intro disjI2) (simp add: ascii_def)
    with no_stop Some show ?thesis
      by (simp add: interpret_text_response_def)
  qed
qed

lemma map_of_setdefault:
  "map_of (dict_setdefault d k v) k' =
     (case map_of d k' of Some x \<Rightarrow> Some x | None \<Rightarrow> (if k' = k then Some v else None))"
  by (auto simp: dict_setdefault_def map_add_def split: option.splits)

lemma map_of_setdefault_other:
  "k' \<noteq> k \<Longrightarrow> map_of (dict_setdefault d k v) k' = map_of d k'"
  by (simp add: map_of_setdefault split: option.splits)

lemma map_of_setdefault_same: "map_of (dict_setdefault d k v) k \<noteq> None"
  by (simp add: map_of_setdefault split: option.splits)

lemma decision_keys_distinct:
  "ascii ''action'' \<noteq> ascii ''parameters''" "ascii ''action'' \<noteq> ascii ''reasoning''"
  "ascii ''tool'' \<noteq> ascii ''parameters''" "ascii ''tool'' \<noteq> ascii ''reasoning''"
  "ascii ''parameters'' \<noteq> ascii ''reasoning''"
  by (simp_all add: ascii_def)

lemma is_registered_found: "is_registered tools v = Inr True \<Longrightarrow> \<exists>n \<in> set tools. v = JStr n"
  by (cases v) auto

lemma validate_decision_ledger:
  "validate_decision tools decision state = (r, state') \<Longrightarrow>
   files_created state' = files_created state"
  by (cases decision)
     (auto simp: validate_decision_def Let_def add_thinking_def split: if_splits sum.splits)

lemma validate_decision_valid:
  assumes "validate_decision tools decision state = (Inr (Some d'), state')"
  shows "valid_decision tools d'"
proof (cases decision)
  case (JObj d)
  let ?action = "dict_get d (ascii ''action'')"
  show ?thesis
  proof (cases "?action = JStr (ascii ''use_tool'')")
    case True
    with assms JObj obtain found where
      reg: "is_registered tools (dict_get d (ascii ''tool'')) = Inr found"
      by (cases "is_registered tools (dict_get d (ascii ''tool''))")
         (auto simp: validate_decision_def Let_def)
    with assms JObj True have found: "found"
      and d': "d' = dict_setdefault (dict_setdefault d (ascii ''parameters'') (JObj []))
                     (ascii ''reasoning'') (JStr (ascii ''No reasoning provided''))"
      by (auto simp: validate_decision_def Let_def split: if_splits)
    from reg found have "is_registered tools (dict_get d (ascii ''tool'')) = Inr True"
      by simp
    then obtain n where n: "n \<in> set tools" "dict_get d (ascii ''tool'') = JStr n"
      using is_registered_found by blast
    have "dict_get d' (ascii ''action'') = JStr (ascii ''use_tool'')"
      using True by (simp add: d' dict_get_def map_of_setdefault_other decision_keys_distinct)
    moreover have "dict_get d' (ascii ''tool'') = JStr n"
      using n(2) by (simp add: d' dict_get_def map_of_setdefault_other decision_keys_distinct)
    moreover have "map_of d' (ascii ''parameters'') \<noteq> None"
      by (simp add: d' map_of_setdefault_other map_of_setdefault_same decision_keys_distinct)
    moreover have "map_of d' (ascii ''reasoning'') \<noteq> None"
      by (simp add: d' map_of_setdefault_same)
    ultimately show ?thesis
      using n(1) unfolding valid_decision_def by blast
  next
    case False
    with assms JObj have stop: "?action = JStr (ascii ''stop'')"
      and d': "d' = dict_setdefault d (ascii ''reasoning'') (JStr (ascii ''Agent decided to stop''))"
      by (auto simp: validate_decision_def Let_def split: if_splits)
    have "dict_get d' (ascii ''action'') = JStr (ascii ''stop'')"
      using stop by (simp add: d' dict_get_def map_of_setdefault_other decision_keys_distinct)
    moreover have "map_of d' (ascii ''reasoning'') \<noteq> None"
      by (simp add: d' map_of_setdefault_same)
    ultimately show ?thesis
      unfolding valid_decision_def by blast
  qed
qed (use assms in \<open>simp_all add: validate_decision_def\<close>)
text \<open>The three ways through the body of the \<open>try\<close>.\<close>

lemma try_parse_no_braces:
  assumes "\<not> (0 \<le> py_find 123 (strip r) \<and> py_find 123 (strip r) < py_rfind 125 (strip r) + 1)"
  shows "try_parse_llm_decision lower loads tools r state =
           (interpret_text_response lower tools (strip r) state, state)"
  unfolding try_parse_llm_decision_def Let_def by (simp only: assms if_False)

lemma try_parse_loads_raises:
  assumes "0 \<le> py_find 123 (strip r)"
    and "py_find 123 (strip r) < py_rfind 125 (strip r) + 1"
    and "loads (slice (strip r) (py_find 123 (strip r)) (py_rfind 125 (strip r) + 1)) = Inl err"
  shows "try_parse_llm_decision lower loads tools r state = (Inl err, state)"
  using assms by (simp add: try_parse_llm_decision_def Let_def)

lemma try_parse_validate_raises:
  assumes "0 \<le> py_find 123 (strip r)"
    and "py_find 123 (strip r) < py_rfind 125 (strip r) + 1"
    and "loads (slice (strip r) (py_find 123 (strip r)) (py_rfind 125 (strip r) + 1)) = Inr decision"
    and "validate_decision tools decision state = (Inl err, state1)"
  shows "try_parse_llm_decision lower loads tools r state = (Inl err, state1)"
  using assms by (simp add: try_parse_llm_decision_def Let_def)

lemma try_parse_valid:
  assumes "0 \<le> py_find 123 (strip r)"
    and "py_find 123 (strip r) < py_rfind 125 (strip r) + 1"
    and "loads (slice (strip r) (py_find 123 (strip r)) (py_rfind 125 (strip r) + 1)) = Inr decision"
    and "validate_decision tools decision state = (Inr (Some d), state1)"
  shows "try_parse_llm_decision lower loads tools r state = (Inr d, state1)"
  using assms by (simp add: try_parse_llm_decision_def Let_def)

lemma try_parse_invalid:
  assumes "0 \<le> py_find 123 (strip r)"
    and "py_find 123 (strip r) < py_rfind 125 (strip r) + 1"
    and "loads (slice (strip r) (py_find 123 (strip r)) (py_rfind 125 (strip r) + 1)) = Inr decision"
    and "validate_decision tools decision state = (Inr None, state1)"
  shows "try_parse_llm_decision lower loads tools r state =
           (interpret_text_response lower tools (strip r) state1, state1)"
  using assms by (simp add: try_parse_llm_decision_def Let_def)

lemma validate_decision_cases:
  obtains (raises) err state1 where "validate_decision tools decision state = (Inl err, state1)"
  | (valid) d state1 where "validate_decision tools decision state = (Inr (Some d), state1)"
  | (invalid) state1 where "validate_decision tools decision state = (Inr None, state1)"
proof (cases "validate_decision tools decision state")
  case (Pair v state1)
  show ?thesis
  proof (cases v)
    case (Inl err)
    with Pair raises show ?thesis by simp
  next
    case (Inr opt)
    with Pair valid invalid show ?thesis by (cases opt) simp_all
  qed
qed

lemma try_parse_llm_decision_ledger:
  assumes "try_parse_llm_decision lower loads tools r state = (res, state')"
  shows "files_created state' = files_created state"
proof (cases "0 \<le> py_find 123 (strip r) \<and> py_find 123 (strip r) < py_rfind 125 (strip r) + 1")
  case False
  from assms show ?thesis
    unfolding try_parse_no_braces [OF False] by simp
next
  case True
  then have b: "0 \<le> py_find 123 (strip r)" "py_find 123 (strip r) < py_rfind 125 (strip r) + 1"
    by simp_all
  show ?thesis
  proof (cases "loads (slice (strip r) (py_find 123 (strip r)) (py_rfind 125 (strip r) + 1))")
    case (Inl err)
    from assms show ?thesis
      unfolding try_parse_loads_raises [where loads = loads, OF b Inl] by simp
  next
    case (Inr decision)
    show ?thesis
    proof (cases tools decision state rule: validate_decision_cases)
      case (raises err state1)
      from assms have "state' = state1"
        unfolding try_parse_validate_raises [where loads = loads, OF b Inr raises] by simp
      with validate_decision_ledger [OF raises] show ?thesis by simp
    next
      case (valid d state1)
      from assms have "state' = state1"
        unfolding try_parse_valid [where loads = loads, OF b Inr valid] by simp
      with validate_decision_ledger [OF valid] show ?thesis by simp
    next
      case (invalid state1)
      from assms have "state' = state1"
        unfolding try_parse_invalid [where loads = loads, OF b Inr invalid] by simp
      with validate_decision_ledger [OF invalid] show ?thesis by simp
    qed
  qed
qed
lemma valid_try_parse_llm_decision:
  assumes "ascii ''think'' \<in> set tools" and "ascii ''generate_code'' \<in> set tools"
    and "ascii ''execute_code'' \<in> set tools" and "text_artifacts state"
    and "try_parse_llm_decision lower loads tools r state = (Inr d, state')"
  shows "valid_decision tools d"
proof (cases "0 \<le> py_find 123 (strip r) \<and> py_find 123 (strip r) < py_rfind 125 (strip r) + 1")
  case False
  from assms(5) have "(interpret_text_response lower tools (strip r) state, state) = (Inr d, state')"
    unfolding try_parse_no_braces [OF False] .
  then have i: "interpret_text_response lower tools (strip r) state = Inr d"
    unfolding prod.inject by (rule conjunct1)
  from valid_interpret_text_response [OF assms(1-4), where lower = lower and response = "strip r"]
  obtain d0
    where "interpret_text_response lower tools (strip r) state = Inr d0" "valid_decision tools d0"
    by blast
  with i show ?thesis by simp
next
  case True
  then have b: "0 \<le> py_find 123 (strip r)" "py_find 123 (strip r) < py_rfind 125 (strip r) + 1"
    by simp_all
  show ?thesis
  proof (cases "loads (slice (strip r) (py_find 123 (strip r)) (py_rfind 125 (strip r) + 1))")
    case (Inl err)
    from assms(5) show ?thesis
      unfolding try_parse_loads_raises [where loads = loads, OF b Inl] by simp
  next
    case (Inr decision)
    show ?thesis
    proof (cases tools decision state rule: validate_decision_cases)
      case (raises err state1)
      from assms(5) show ?thesis
        unfolding try_parse_validate_raises [where loads = loads, OF b Inr raises] by simp
    next
      case (valid d' state1)
      from assms(5) have "d' = d"
        unfolding try_parse_valid [where loads = loads, OF b Inr valid] by simp
      with valid have "validate_decision tools decision state = (Inr (Some d), state1)"
        by simp
      then show ?thesis by (rule validate_decision_valid)
    next
      case (invalid state1)
      from validate_decision_ledger [OF invalid] assms(4) have ta: "text_artifacts state1"
        by (simp add: text_artifacts_def)
      from assms(5)
      have "(interpret_text_response lower tools (strip r) state1, state1) = (Inr d, state')"
        unfolding try_parse_invalid [where loads = loads, OF b Inr invalid] .
      then have i: "interpret_text_response lower tools (strip r) state1 = Inr d"
        unfolding prod.inject by (rule conjunct1)
      from valid_interpret_text_response
        [OF assms(1-3) ta, where lower = lower and response = "strip r"]
      obtain d0
        where "interpret_text_response lower tools (strip r) state1 = Inr d0"
          "valid_decision tools d0"
        by blast
      with i show ?thesis by simp
    qed
  qed
qed

lemma parse_llm_decision_cases:
  assumes "try_parse_llm_decision lower loads tools r state = (res, state1)"
  shows "parse_llm_decision lower loads tools r state =
           (case res of
              Inr d \<Rightarrow> (Inr d, state1)
            | Inl err \<Rightarrow>
                (get_fallback_decision (add_thinking state1 (ParseError (error_text err))),
                 add_thinking state1 (ParseError (error_text err))))"
  using assms by (simp add: parse_llm_decision_def Let_def split: sum.splits)

lemma valid_parse_llm_decision:
  assumes "ascii ''think'' \<in> set tools" and "ascii ''generate_code'' \<in> set tools"
    and "ascii ''execute_code'' \<in> set tools" and "text_artifacts state"
  shows "\<exists>d state'. parse_llm_decision lower loads tools r state = (Inr d, state') \<and>
           valid_decision tools d"
proof -
  obtain res state1 where t: "try_parse_llm_decision lower loads tools r state = (res, state1)"
    by (cases "try_parse_llm_decision lower loads tools r state")
  show ?thesis
  proof (cases res)
    case (Inr d)
    with t valid_try_parse_llm_decision [OF assms] have "valid_decision tools d"
      by blast
    with Inr show ?thesis
      unfolding parse_llm_decision_cases [OF t] by simp
  next
    case (Inl err)
    let ?state2 = "add_thinking state1 (ParseError (error_text err))"
    have "files_created ?state2 = files_created state"
      using try_parse_llm_decision_ledger [OF t] by (simp add: add_thinking_def)
    with assms(4) have "text_artifacts ?state2"
      by (simp add: text_artifacts_def)
    from valid_fallback [OF assms(1-3) this] obtain d
      where "get_fallback_decision ?state2 = Inr d" "valid_decision tools d"
      by blast
    with Inl show ?thesis
      unfolding parse_llm_decision_cases [OF t] by simp
  qed
qed

lemma agent_tools_fallback:
  "ascii ''think'' \<in> set agent_tools" "ascii ''generate_code'' \<in> set agent_tools"
  "ascii ''execute_code'' \<in> set agent_tools"
  by (simp_all add: agent_tools_def)

text \<open>
  C3: for every response text of the oracle, whatever \<open>json.loads\<close> makes of the span
  between its braces, the adapter returns (it does not raise) a decision whose action is
  \<open>use_tool\<close> or \<open>stop\<close>, with its reasoning, and for \<open>use_tool\<close> with parameters and
  a tool that is one of the registered capabilities. The ledger is any whose artifact
  names are strings.
\<close>

theorem adapter_returns_validated_decision:
  assumes "text_artifacts state"
  shows "\<exists>d state'.
           parse_llm_decision lower loads agent_tools llm_response state = (Inr d, state') \<and>
           valid_decision agent_tools d"
  by (rule valid_parse_llm_decision [OF agent_tools_fallback assms])

text \<open>A \<open>json.loads\<close> that rejects whatever it is given, for the examples.\<close>

definition loads_fails :: "pystr \<Rightarrow> pyerror + json" where
  "loads_fails text = Inl (Exc OtherError (ascii ''Expecting property name enclosed in double quotes''))"

lemma text_artifacts_new: "text_artifacts (new_agent_state problem max_calls)"
  by (simp add: text_artifacts_def new_agent_state_def)

theorem adapter_returns_validated_decision_witness:
  "text_artifacts (new_agent_state [] 15) \<and>
   (\<exists>d state'.
      parse_llm_decision ascii_lower loads_fails agent_tools (ascii ''}garbage{'')
        (new_agent_state [] 15) = (Inr d, state') \<and>
      valid_decision agent_tools d)"
  using adapter_returns_validated_decision [OF text_artifacts_new, of ascii_lower loads_fails
      "ascii ''}garbage{''" "[]" 15]
  by (simp add: text_artifacts_new)

subsection \<open>When the span between the braces does not parse\<close>

text \<open>
  C7 (a span that fails to parse, or parses and fails validation, falls through to the
  textual interpretation before the fallback tree). A decision that parses and fails
  validation does (\<open>try_parse_invalid\<close>), and so does a response without braces
  (\<open>try_parse_no_braces\<close>). But when \<open>json.loads\<close> raises, the handler of
  \<open>_parse_llm_decision\<close> goes straight to the fallback tree, and the textual
  interpretation is never consulted.
\<close>

theorem parse_failure_skips_text_interpretation:
  assumes "0 \<le> py_find 123 (strip r)"
    and "py_find 123 (strip r) < py_rfind 125 (strip r) + 1"
    and "loads (slice (strip r) (py_find 123 (strip r)) (py_rfind 125 (strip r) + 1)) = Inl err"
  shows "parse_llm_decision lower loads tools r state =
           (get_fallback_decision (add_thinking state (ParseError (error_text err))),
            add_thinking state (ParseError (error_text err)))"
  unfolding parse_llm_decision_cases
    [OF try_parse_loads_raises [where loads = loads, OF assms]]
  by simp

lemma oops_stop_braces:
  "strip (ascii ''{oops} stop'') = ascii ''{oops} stop''"
  "py_find 123 (ascii ''{oops} stop'') = 0"
  "py_rfind 125 (ascii ''{oops} stop'') = 5"
  by (simp_all add: strip_def py_isspace_def py_rfind_def ascii_def)

lemma oops_stop_as_text:
  "interpret_text_response ascii_lower agent_tools (ascii ''{oops} stop'') state =
     Inr (stop_decision (ascii ''Interpreted from response: {oops} stop...''))"
  by (simp add: interpret_text_response_def stop_indicators_def ascii_lower_def ascii_def)

lemma fallback_new: 
  "get_fallback_decision (add_thinking (new_agent_state problem max_calls) t) =
     Inr (think_decision (ascii ''problem analysis'') (ascii ''Starting problem analysis'')
            (ascii ''Fallback: Starting with problem analysis''))"
  by (simp add: get_fallback_decision_def add_thinking_def new_agent_state_def)

theorem parse_failure_skips_text_interpretation_witness:
  "interpret_text_response ascii_lower agent_tools (strip (ascii ''{oops} stop''))
       (new_agent_state [] 15) =
     Inr (stop_decision (ascii ''Interpreted from response: {oops} stop...'')) \<and>
   fst (parse_llm_decision ascii_lower loads_fails agent_tools (ascii ''{oops} stop'')
          (new_agent_state [] 15)) =
     Inr (think_decision (ascii ''problem analysis'') (ascii ''Starting problem analysis'')
            (ascii ''Fallback: Starting with problem analysis''))"
proof -
  have 1: "0 \<le> py_find 123 (strip (ascii ''{oops} stop''))"
    and 2: "py_find 123 (strip (ascii ''{oops} stop'')) <
            py_rfind 125 (strip (ascii ''{oops} stop'')) + 1"
    by (simp_all add: oops_stop_braces)
  have 3: "loads_fails (slice (strip (ascii ''{oops} stop''))
             (py_find 123 (strip (ascii ''{oops} stop'')))
             (py_rfind 125 (strip (ascii ''{oops} stop'')) + 1)) =
           Inl (Exc OtherError (ascii ''Expecting property name enclosed in double quotes''))"
    by (simp add: loads_fails_def)
  show ?thesis
    unfolding parse_failure_skips_text_interpretation [where loads = loads_fails, OF 1 2 3]
    by (simp add: fallback_new oops_stop_braces(1) oops_stop_as_text)
qed

section \<open>Control loop (\<open>v3_autonomous_agent.py\<close>)\<close>

subsection \<open>The world outside the loop\<close>

text \<open>
  What the loop calls and does not contain: the standard library's \<open>str.lower\<close> and
  \<open>json.loads\<close>, the reasoning oracle and the capabilities. The oracle's answer in
  cycle \<open>i\<close> may depend on the cycle and on the ledger its prompt is rendered from;
  \<open>env_execute i name parameters\<close> is \<open>self.tools[name].execute(**parameters)\<close> in
  cycle \<open>i\<close>, an envelope or an exception (also the \<open>KeyError\<close> of an unknown name and
  the \<open>TypeError\<close> of parameters the capability does not take).
\<close>

record env =
  env_lower :: "pystr \<Rightarrow> pystr"
  env_loads :: "pystr \<Rightarrow> pyerror + json"
  env_complete :: "nat \<Rightarrow> agent_state \<Rightarrow> pyerror + pystr"
  env_execute :: "nat \<Rightarrow> json \<Rightarrow> json \<Rightarrow> pyerror + tool_result"

subsection \<open>Deciding\<close>

text \<open>
  \<open>_make_autonomous_decision\<close>: a \<open>use_tool\<close> decision is recorded in the ledger, which
  takes one call from the budget. The messages logged on the way read
  \<open>decision["reasoning"]\<close>, which raises when the key is missing.
\<close>

definition make_autonomous_decision ::
  "env \<Rightarrow> nat \<Rightarrow> agent_state \<Rightarrow> (pyerror + pydict) \<times> agent_state" where
  "make_autonomous_decision E i state =
     (case decide_next_action (env_lower E) (env_loads E) agent_tools (env_complete E i) state of
        (Inl err, state1) \<Rightarrow> (Inl err, state1)
      | (Inr decision, state1) \<Rightarrow>
          (case dict_item decision (ascii ''action'') of
             Inl err \<Rightarrow> (Inl err, state1)
           | Inr action \<Rightarrow>
               if action = JStr (ascii ''use_tool'') then
                 (case dict_item decision (ascii ''tool'') of
                    Inl err \<Rightarrow> (Inl err, state1)
                  | Inr tool_name \<Rightarrow>
                      (case dict_item decision (ascii ''reasoning'') of
                         Inl err \<Rightarrow> (Inl err, state1)
                       | Inr why \<Rightarrow>
                           (case dict_item decision (ascii ''parameters'') of
                              Inl err \<Rightarrow> (Inl err, state1)
                            | Inr params \<Rightarrow>
                                (Inr decision, add_tool_call state1 tool_name params why))))
               else
                 (case dict_item decision (ascii ''reasoning'') of
                    Inl err \<Rightarrow> (Inl err, state1)
                  | Inr why \<Rightarrow> (Inr decision, state1))))"

subsection \<open>Dispatching and recording\<close>

text \<open>\<open>parameters.get(key, default)\<close> and \<open>len(v)\<close> on values that need not be a dictionary or sized.\<close>

fun params_get :: "json \<Rightarrow> pystr \<Rightarrow> json \<Rightarrow> pyerror + json" where
  "params_get (JObj d) k dflt = Inr (case map_of d k of None \<Rightarrow> dflt | Some v \<Rightarrow> v)"
| "params_get v k dflt = Inl (no_attribute v ''get'')"

fun py_len :: "json \<Rightarrow> pyerror + nat" where
  "py_len (JStr s) = Inr (length s)"
| "py_len (JArr xs) = Inr (length xs)"
| "py_len (JObj d) = Inr (length d)"
| "py_len v =
     Inl (Exc TypeError (ascii ''object of type '' @ quoted (type_name v) @ ascii '' has no len()''))"

definition opt_get :: "'a option \<Rightarrow> 'a \<Rightarrow> 'a" where
  "opt_get v dflt = (case v of None \<Rightarrow> dflt | Some x \<Rightarrow> x)"

text \<open>
  \<open>_process_tool_result\<close>, one definition for each capability it knows. An exception
  leaves the ledger as it was: each is raised while the arguments of the recording call
  are still being evaluated.
\<close>

definition process_think :: "tool_payload \<Rightarrow> agent_state \<Rightarrow> agent_state" where
  "process_think tool_result state =
     (let thinking_content = opt_get (p_thinking_process tool_result) [];
          state1 = add_thinking state (Thinking (take 200 thinking_content));
          solution_plan = opt_get (p_solution_plan tool_result) []
      in if solution_plan \<noteq> [] then
           state1\<lparr>current_approach :=
                    (if 100 < length solution_plan then take 100 solution_plan @ ascii ''...''
                     else solution_plan)\<rparr>
         else state1)"

definition process_generate_code :: "tool_payload \<Rightarrow> agent_state \<Rightarrow> agent_state" where
  "process_generate_code tool_result state =
     add_thinking state (GeneratedCode (length (opt_get (p_generated_code tool_result) [])))"

definition process_write_file ::
  "tool_payload \<Rightarrow> json \<Rightarrow> agent_state \<Rightarrow> pyerror + agent_state" where
  "process_write_file tool_result params state =
     (case params_get params (ascii ''filename'') (JStr (ascii ''unknown'')) of
        Inl err \<Rightarrow> Inl err
      | Inr filename \<Rightarrow>
     (case params_get params (ascii ''content'') (JStr []) of
        Inl err \<Rightarrow> Inl err
      | Inr content \<Rightarrow>
     (case params_get params (ascii ''type'') (JStr (ascii ''unknown'')) of
        Inl err \<Rightarrow> Inl err
      | Inr content_type \<Rightarrow>
     (case p_file_path tool_result of
        None \<Rightarrow> Inl (Exc KeyError (quoted (ascii ''file_path'')))
      | Some path \<Rightarrow>
     (case py_len content of
        Inl err \<Rightarrow> Inl err
      | Inr sz \<Rightarrow>
          Inr (add_file state filename path content_type (ascii ''Tool call: write_file'') sz))))))"

definition process_read_file ::
  "tool_payload \<Rightarrow> json \<Rightarrow> agent_state \<Rightarrow> pyerror + agent_state" where
  "process_read_file tool_result params state =
     (case params_get params (ascii ''filename'') (JStr (ascii ''unknown'')) of
        Inl err \<Rightarrow> Inl err
      | Inr filename \<Rightarrow>
          Inr (add_thinking state (ReadFile filename (length (opt_get (p_content tool_result) [])))))"

definition process_execute_code ::
  "tool_payload \<Rightarrow> json \<Rightarrow> agent_state \<Rightarrow> pyerror + agent_state" where
  "process_execute_code tool_result params state =
     (case params_get params (ascii ''filename'') (JStr (ascii ''unknown'')) of
        Inl err \<Rightarrow> Inl err
      | Inr filename \<Rightarrow>
          add_execution_result state filename
            (opt_get (p_exit_code tool_result) (- 1))
            (opt_get (p_stdout tool_result) [])
            (opt_get (p_stderr tool_result) [])
            (opt_get (p_test_results tool_result) no_test_results))"

definition process_tool_result ::
  "json \<Rightarrow> tool_result \<Rightarrow> json \<Rightarrow> agent_state \<Rightarrow> pyerror + agent_state" where
  "process_tool_result tool_name r params state =
     (if \<not> res_success r then Inr state
      else (case res_result r of
              None \<Rightarrow> Inl (Exc KeyError (quoted (ascii ''result'')))
            | Some tool_result \<Rightarrow>
                if tool_name = JStr (ascii ''think'') then Inr (process_think tool_result state)
                else if tool_name = JStr (ascii ''generate_code'') then
                  Inr (process_generate_code tool_result state)
                else if tool_name = JStr (ascii ''write_file'') then
                  process_write_file tool_result params state
                else if tool_name = JStr (ascii ''read_file'') then
                  process_read_file tool_result params state
                else if tool_name = JStr (ascii ''execute_code'') then
                  process_execute_code tool_result params state
                else Inr state))"

text \<open>The handler of \<open>_execute_tool_decision\<close>.\<close>

definition tool_execution_failed :: "json \<Rightarrow> pyerror \<Rightarrow> agent_state \<Rightarrow> agent_state" where
  "tool_execution_failed tool_name err state =
     add_issue
       (update_last_tool_call state
          \<lparr>res_success = False, res_result = None, res_error = Some (error_text err)\<rparr>)
       (ToolRaised tool_name (error_text err))"

text \<open>
  \<open>_execute_tool_decision\<close>. Reading the decision's \<open>tool\<close> and \<open>parameters\<close> stands
  before the \<open>try\<close>; a missing key is the only exception that leaves the method.
\<close>

definition execute_tool_decision ::
  "(json \<Rightarrow> json \<Rightarrow> pyerror + tool_result) \<Rightarrow> pydict \<Rightarrow> agent_state \<Rightarrow>
   pyerror option \<times> agent_state" where
  "execute_tool_decision execute decision state =
     (case dict_item decision (ascii ''tool'') of
        Inl err \<Rightarrow> (Some err, state)
      | Inr tool_name \<Rightarrow>
     (case dict_item decision (ascii ''parameters'') of
        Inl err \<Rightarrow> (Some err, state)
      | Inr params \<Rightarrow>
     (case execute tool_name params of
        Inl err \<Rightarrow> (None, tool_execution_failed tool_name err state)
      | Inr r \<Rightarrow>
          (let state1 = update_last_tool_call state r
           in (case process_tool_result tool_name r params state1 of
                 Inl err \<Rightarrow> (None, tool_execution_failed tool_name err state1)
               | Inr state2 \<Rightarrow>
                   if \<not> res_success r then
                     (None, add_issue state2
                        (ToolFailed tool_name (opt_get (res_error r) (ascii ''Unknown error''))))
                   else (None, state2))))))"

subsection \<open>Reassessing\<close>

text \<open>\<open>_update_agent_assessment\<close>.\<close>

definition update_agent_assessment :: "agent_state \<Rightarrow> agent_state" where
  "update_agent_assessment state =
     (let satisfaction =
            (if files_created state \<noteq> [] then 20 else 0) +
            (if execution_results state \<noteq> [] then 20 else 0) +
            (if 0 < best_quality_score state then min 50 (best_quality_score state div 2) else 0);
          confidence =
            (if tool_calls state \<noteq> [] then 20 else 0) +
            (if 70 \<le> best_quality_score state then 50 else 0) +
            (if identified_issues state = [] then 30 else 0);
          state1 = update_confidence (update_satisfaction state satisfaction []) confidence []
      in if 90 \<le> best_quality_score state1 \<and> \<not> is_satisfied state1 then
           mark_satisfied state1
             (JStr (ascii ''High quality solution achieved: '' @
                    str_of_int (best_quality_score state1) @ ascii ''/100''))
         else state1)"

subsection \<open>The loop\<close>

text \<open>
  One pass through the body of the \<open>while\<close>. \<open>Continue state1 state2\<close>: an invocation
  was recorded (\<open>state1\<close>), dispatched and reassessed (\<open>state2\<close>). \<open>Stopped\<close>: the
  decision was to stop. \<open>Failed\<close>: an exception left the body, with the ledger as it
  stood.
\<close>

datatype cycle_result =
    Continue agent_state agent_state
  | Stopped agent_state
  | Failed pyerror agent_state

definition cycle :: "env \<Rightarrow> nat \<Rightarrow> agent_state \<Rightarrow> cycle_result" where
  "cycle E i state =
     (case make_autonomous_decision E i state of
        (Inl err, state1) \<Rightarrow> Failed err state1
      | (Inr decision, state1) \<Rightarrow>
          (case dict_item decision (ascii ''action'') of
             Inl err \<Rightarrow> Failed err state1
           | Inr action \<Rightarrow>
               if action = JStr (ascii ''stop'') then
                 (case dict_item decision (ascii ''reasoning'') of
                    Inl err \<Rightarrow> Failed err state1
                  | Inr why \<Rightarrow> Stopped (mark_satisfied state1 why))
               else
                 (case execute_tool_decision (env_execute E i) decision state1 of
                    (Some err, state2) \<Rightarrow> Failed err state2
                  | (None, state2) \<Rightarrow> Continue state1 (update_agent_assessment state2))))"

subsection \<open>What a pass through the loop does to the budget\<close>

text \<open>The three values the budget invariant relates.\<close>

definition budget :: "agent_state \<Rightarrow> int \<times> int \<times> nat" where
  "budget state = (max_tool_calls state, remaining_calls state, length (tool_calls state))"

lemma budget_add_thinking: "budget (add_thinking state t) = budget state"
  by (simp add: budget_def add_thinking_def)

lemma budget_add_issue: "budget (add_issue state x) = budget state"
  by (simp add: budget_def add_issue_def)

lemma budget_add_file: "budget (add_file state f p c u n) = budget state"
  by (simp add: budget_def add_file_def)

lemma budget_update_last_tool_call: "budget (update_last_tool_call state r) = budget state"
  by (simp add: budget_def update_last_tool_call_def)

lemma budget_add_execution_result:
  "add_execution_result state f c out err tr = Inr state' \<Longrightarrow> budget state' = budget state"
  by (cases "calculate_quality_score c out err tr")
     (auto simp: add_execution_result_def budget_def Let_def split: if_splits)

lemma budget_update_satisfaction: "budget (update_satisfaction state n r) = budget state"
  by (simp add: budget_def update_satisfaction_def add_thinking_def Let_def)

lemma budget_update_confidence: "budget (update_confidence state n r) = budget state"
  by (simp add: budget_def update_confidence_def add_thinking_def Let_def)

lemma budget_mark_satisfied: "budget (mark_satisfied state r) = budget state"
  by (simp add: budget_def mark_satisfied_def add_thinking_def)

lemma budget_add_tool_call:
  "budget (add_tool_call state n p w) =
     (max_tool_calls state, remaining_calls state - 1, Suc (length (tool_calls state)))"
  by (simp add: budget_def add_tool_call_def)

lemma budget_process_think: "budget (process_think p state) = budget state"
  by (simp add: process_think_def Let_def budget_def add_thinking_def)

lemma budget_process_tool_result:
  assumes "process_tool_result n r p state = Inr state'"
  shows "budget state' = budget state"
proof -
  have w: "process_write_file t p state = Inr state' \<Longrightarrow> budget state' = budget state" for t
    by (auto simp: process_write_file_def budget_add_file split: sum.splits option.splits)
  have rd: "process_read_file t p state = Inr state' \<Longrightarrow> budget state' = budget state" for t
    by (auto simp: process_read_file_def budget_add_thinking split: sum.splits)
  have ex: "process_execute_code t p state = Inr state' \<Longrightarrow> budget state' = budget state" for t
    by (auto simp: process_execute_code_def split: sum.splits
        dest: budget_add_execution_result)
  from assms show ?thesis
    by (auto simp: process_tool_result_def process_generate_code_def budget_add_thinking
        budget_process_think split: if_splits option.splits dest: w rd ex)
qed

lemma budget_tool_execution_failed: "budget (tool_execution_failed n e state) = budget state"
  by (simp add: tool_execution_failed_def budget_add_issue budget_update_last_tool_call)

lemma budget_execute_tool_decision:
  assumes "execute_tool_decision execute decision state = (r, state')"
  shows "budget state' = budget state"
proof (cases "dict_item decision (ascii ''tool'')")
  case (Inl err)
  with assms show ?thesis by (simp add: execute_tool_decision_def)
next
  case tool: (Inr tool_name)
  show ?thesis
  proof (cases "dict_item decision (ascii ''parameters'')")
    case (Inl err)
    with assms tool show ?thesis by (simp add: execute_tool_decision_def)
  next
    case params: (Inr params)
    show ?thesis
    proof (cases "execute tool_name params")
      case (Inl err)
      with assms tool params have "state' = tool_execution_failed tool_name err state"
        by (simp add: execute_tool_decision_def)
      then show ?thesis by (simp add: budget_tool_execution_failed)
    next
      case ret: (Inr res)
      let ?state1 = "update_last_tool_call state res"
      show ?thesis
      proof (cases "process_tool_result tool_name res params ?state1")
        case (Inl err)
        with assms tool params ret have "state' = tool_execution_failed tool_name err ?state1"
          by (simp add: execute_tool_decision_def)
        then show ?thesis
          by (simp add: budget_tool_execution_failed budget_update_last_tool_call)
      next
        case (Inr state2)
        from budget_process_tool_result [OF Inr] have b2: "budget state2 = budget state"
          by (simp add: budget_update_last_tool_call)
        from assms tool params ret Inr
        have "state' = state2 \<or>
              state' = add_issue state2
                 (ToolFailed tool_name (opt_get (res_error res) (ascii ''Unknown error'')))"
          by (auto simp: execute_tool_decision_def Let_def split: if_splits)
        with b2 show ?thesis by (auto simp: budget_add_issue)
      qed
    qed
  qed
qed

lemma budget_update_agent_assessment: "budget (update_agent_assessment state) = budget state"
  by (simp add: update_agent_assessment_def Let_def budget_mark_satisfied
      budget_update_confidence budget_update_satisfaction)

subsection \<open>The action of a decision\<close>

definition known_action :: "pydict \<Rightarrow> bool" where
  "known_action d \<longleftrightarrow>
     dict_item d (ascii ''action'') = Inr (JStr (ascii ''use_tool'')) \<or>
     dict_item d (ascii ''action'') = Inr (JStr (ascii ''stop''))"

lemma known_action_literals:
  "known_action (think_decision f c w)" "known_action (execute_decision n)"
  "known_action (stop_decision w)" "known_action generate_decision"
  by (simp_all add: known_action_def dict_item_def think_decision_def execute_decision_def
      stop_decision_def generate_decision_def)

lemma known_action_fallback:
  "get_fallback_decision state = Inr d \<Longrightarrow> known_action d"
  by (auto simp: get_fallback_decision_def fallback_on_quality_def Let_def known_action_literals
      split: if_splits sum.splits)

lemma known_action_interpret:
  assumes "interpret_text_response lower tools response state = Inr d"
  shows "known_action d"
proof (cases "list_ex (\<lambda>indicator. str_contains indicator (lower response)) stop_indicators")
  case True
  with assms show ?thesis
    by (auto simp: interpret_text_response_def known_action_literals)
next
  case no_stop: False
  show ?thesis
  proof (cases "find (\<lambda>tool_name. str_contains tool_name (lower response)) tools")
    case None
    with no_stop assms have "get_fallback_decision state = Inr d"
      by (simp add: interpret_text_response_def)
    then show ?thesis by (rule known_action_fallback)
  next
    case (Some t)
    with no_stop assms show ?thesis
      by (auto simp: interpret_text_response_def known_action_def dict_item_def)
  qed
qed

lemma known_action_valid: "valid_decision tools d \<Longrightarrow> known_action d"
  by (auto simp: valid_decision_def known_action_def dict_get_def dict_item_def
      split: option.splits)

lemma known_action_try_parse:
  assumes "try_parse_llm_decision lower loads tools r state = (Inr d, state')"
  shows "known_action d"
proof (cases "0 \<le> py_find 123 (strip r) \<and> py_find 123 (strip r) < py_rfind 125 (strip r) + 1")
  case False
  from assms have "(interpret_text_response lower tools (strip r) state, state) = (Inr d, state')"
    unfolding try_parse_no_braces [OF False] .
  then have "interpret_text_response lower tools (strip r) state = Inr d"
    unfolding prod.inject by (rule conjunct1)
  then show ?thesis by (rule known_action_interpret)
next
  case True
  then have b: "0 \<le> py_find 123 (strip r)" "py_find 123 (strip r) < py_rfind 125 (strip r) + 1"
    by simp_all
  show ?thesis
  proof (cases "loads (slice (strip r) (py_find 123 (strip r)) (py_rfind 125 (strip r) + 1))")
    case (Inl err)
    from assms show ?thesis
      unfolding try_parse_loads_raises [where loads = loads, OF b Inl] by simp
  next
    case (Inr decision)
    show ?thesis
    proof (cases tools decision state rule: validate_decision_cases)
      case (raises err state1)
      from assms show ?thesis
        unfolding try_parse_validate_raises [where loads = loads, OF b Inr raises] by simp
    next
      case (valid d' state1)
      from assms have "d' = d"
        unfolding try_parse_valid [where loads = loads, OF b Inr valid] by simp
      with valid have "validate_decision tools decision state = (Inr (Some d), state1)"
        by simp
      then have "valid_decision tools d" by (rule validate_decision_valid)
      then show ?thesis by (rule known_action_valid)
    next
      case (invalid state1)
      from assms
      have "(interpret_text_response lower tools (strip r) state1, state1) = (Inr d, state')"
        unfolding try_parse_invalid [where loads = loads, OF b Inr invalid] .
      then have "interpret_text_response lower tools (strip r) state1 = Inr d"
        unfolding prod.inject by (rule conjunct1)
      then show ?thesis by (rule known_action_interpret)
    qed
  qed
qed

lemma budget_validate_decision:
  "validate_decision tools decision state = (r, state') \<Longrightarrow> budget state' = budget state"
  by (cases decision)
     (auto simp: validate_decision_def Let_def budget_add_thinking split: if_splits sum.splits)

lemma budget_try_parse:
  assumes "try_parse_llm_decision lower loads tools r state = (res, state')"
  shows "budget state' = budget state"
proof (cases "0 \<le> py_find 123 (strip r) \<and> py_find 123 (strip r) < py_rfind 125 (strip r) + 1")
  case False
  from assms show ?thesis
    unfolding try_parse_no_braces [OF False] by simp
next
  case True
  then have b: "0 \<le> py_find 123 (strip r)" "py_find 123 (strip r) < py_rfind 125 (strip r) + 1"
    by simp_all
  show ?thesis
  proof (cases "loads (slice (strip r) (py_find 123 (strip r)) (py_rfind 125 (strip r) + 1))")
    case (Inl err)
    from assms show ?thesis
      unfolding try_parse_loads_raises [where loads = loads, OF b Inl] by simp
  next
    case (Inr decision)
    show ?thesis
    proof (cases tools decision state rule: validate_decision_cases)
      case (raises err state1)
      from assms have "state' = state1"
        unfolding try_parse_validate_raises [where loads = loads, OF b Inr raises] by simp
      with budget_validate_decision [OF raises] show ?thesis by simp
    next
      case (valid d state1)
      from assms have "state' = state1"
        unfolding try_parse_valid [where loads = loads, OF b Inr valid] by simp
      with budget_validate_decision [OF valid] show ?thesis by simp
    next
      case (invalid state1)
      from assms have "state' = state1"
        unfolding try_parse_invalid [where loads = loads, OF b Inr invalid] by simp
      with budget_validate_decision [OF invalid] show ?thesis by simp
    qed
  qed
qed

lemma parse_llm_decision_result:
  assumes "parse_llm_decision lower loads tools r state = (res, state')"
  shows "budget state' = budget state \<and> (\<forall>d. res = Inr d \<longrightarrow> known_action d)"
proof -
  obtain res1 state1 where t: "try_parse_llm_decision lower loads tools r state = (res1, state1)"
    by (cases "try_parse_llm_decision lower loads tools r state")
  note b1 = budget_try_parse [OF t]
  show ?thesis
  proof (cases res1)
    case (Inr d)
    with t have "known_action d" by (auto dest: known_action_try_parse)
    with assms Inr b1 show ?thesis
      unfolding parse_llm_decision_cases [OF t] by auto
  next
    case (Inl err)
    with assms b1 show ?thesis
      unfolding parse_llm_decision_cases [OF t]
      by (auto simp: budget_add_thinking dest: known_action_fallback)
  qed
qed

lemma decide_next_action_result:
  assumes "decide_next_action lower loads tools oracle state = (res, state')"
  shows "budget state' = budget state \<and> (\<forall>d. res = Inr d \<longrightarrow> known_action d)"
proof (cases "get_recent_actions state 3")
  case (Inl err)
  with assms show ?thesis by (auto simp: decide_next_action_def)
next
  case rendered: (Inr u)
  show ?thesis
  proof (cases "oracle state")
    case (Inl err)
    with assms rendered show ?thesis by (auto simp: decide_next_action_def)
  next
    case (Inr response)
    with assms rendered
    have "parse_llm_decision lower loads tools response state = (res, state')"
      by (simp add: decide_next_action_def)
    then show ?thesis by (rule parse_llm_decision_result)
  qed
qed

text \<open>
  A decision that comes back from \<open>_make_autonomous_decision\<close> is a stop, and the
  budget is untouched, or the use of a tool, and exactly one invocation was recorded.
  When it raises, nothing was recorded.
\<close>

lemma make_autonomous_decision_result:
  assumes "make_autonomous_decision E i state = (res, state')"
  shows "(\<exists>err. res = Inl err \<and> budget state' = budget state) \<or>
         (\<exists>d. res = Inr d \<and> dict_item d (ascii ''action'') = Inr (JStr (ascii ''stop'')) \<and>
               budget state' = budget state) \<or>
         (\<exists>d. res = Inr d \<and> dict_item d (ascii ''action'') = Inr (JStr (ascii ''use_tool'')) \<and>
               budget state' =
                 (max_tool_calls state, remaining_calls state - 1,
                  Suc (length (tool_calls state))))"
proof -
  obtain res1 state1 where
    d: "decide_next_action (env_lower E) (env_loads E) agent_tools (env_complete E i) state =
          (res1, state1)"
    by (cases "decide_next_action (env_lower E) (env_loads E) agent_tools (env_complete E i) state")
  from decide_next_action_result [OF d] have b1: "budget state1 = budget state"
    and ka: "\<And>dd. res1 = Inr dd \<Longrightarrow> known_action dd"
    by auto
  show ?thesis
  proof (cases res1)
    case (Inl err)
    with assms d b1 show ?thesis by (auto simp: make_autonomous_decision_def)
  next
    case (Inr dd)
    from ka [OF Inr] consider
        (use) "dict_item dd (ascii ''action'') = Inr (JStr (ascii ''use_tool''))"
      | (stop) "dict_item dd (ascii ''action'') = Inr (JStr (ascii ''stop''))"
      by (auto simp: known_action_def)
    then show ?thesis
    proof cases
      case use
      show ?thesis
      proof (cases "dict_item dd (ascii ''tool'')")
        case (Inl err)
        with use assms d Inr b1 show ?thesis by (auto simp: make_autonomous_decision_def)
      next
        case tool: (Inr tool_name)
        show ?thesis
        proof (cases "dict_item dd (ascii ''reasoning'')")
          case (Inl err)
          with use tool assms d Inr b1 show ?thesis
            by (auto simp: make_autonomous_decision_def)
        next
          case why: (Inr why)
          show ?thesis
          proof (cases "dict_item dd (ascii ''parameters'')")
            case (Inl err)
            with use tool why assms d Inr b1 show ?thesis
              by (auto simp: make_autonomous_decision_def)
          next
            case (Inr params)
            with use tool why assms d \<open>res1 = Inr dd\<close>
            have "res = Inr dd" "state' = add_tool_call state1 tool_name params why"
              by (auto simp: make_autonomous_decision_def)
            moreover from b1 have "max_tool_calls state1 = max_tool_calls state"
              "remaining_calls state1 = remaining_calls state"
              "length (tool_calls state1) = length (tool_calls state)"
              by (simp_all add: budget_def)
            ultimately show ?thesis
              using use by (simp add: budget_add_tool_call)
          qed
        qed
      qed
    next
      case stop
      have "JStr (ascii ''stop'') \<noteq> JStr (ascii ''use_tool'')"
        by (simp add: ascii_def)
      with stop assms d Inr b1 show ?thesis
        by (auto simp: make_autonomous_decision_def split: sum.splits)
    qed
  qed
qed

lemma cycle_Continue:
  assumes "cycle E i state = Continue state1 state2"
  shows "budget state1 =
           (max_tool_calls state, remaining_calls state - 1, Suc (length (tool_calls state))) \<and>
         budget state2 = budget state1"
proof -
  obtain res s1 where m: "make_autonomous_decision E i state = (res, s1)"
    by (cases "make_autonomous_decision E i state")
  from assms m obtain d where res: "res = Inr d"
    by (cases res) (auto simp: cycle_def)
  from assms m res obtain action where a: "dict_item d (ascii ''action'') = Inr action"
    by (cases "dict_item d (ascii ''action'')") (auto simp: cycle_def)
  from assms m res a have ns: "action \<noteq> JStr (ascii ''stop'')"
    by (auto simp: cycle_def split: sum.splits)
  obtain r s2 where e: "execute_tool_decision (env_execute E i) d s1 = (r, s2)"
    by (cases "execute_tool_decision (env_execute E i) d s1")
  from assms m res a ns e have eq: "state1 = s1" "state2 = update_agent_assessment s2"
    by (auto simp: cycle_def split: option.splits)
  from make_autonomous_decision_result [OF m] res a ns
  have "budget s1 =
          (max_tool_calls state, remaining_calls state - 1, Suc (length (tool_calls state)))"
    by auto
  with budget_execute_tool_decision [OF e] eq show ?thesis
    by (simp add: budget_update_agent_assessment)
qed

lemma cycle_Stopped:
  assumes "cycle E i state = Stopped state1"
  shows "budget state1 = budget state"
proof -
  obtain res s1 where m: "make_autonomous_decision E i state = (res, s1)"
    by (cases "make_autonomous_decision E i state")
  from assms m obtain d where res: "res = Inr d"
    by (cases res) (auto simp: cycle_def)
  from assms m res obtain action where a: "dict_item d (ascii ''action'') = Inr action"
    by (cases "dict_item d (ascii ''action'')") (auto simp: cycle_def)
  have st: "action = JStr (ascii ''stop'')"
  proof (rule ccontr)
    assume "action \<noteq> JStr (ascii ''stop'')"
    with assms m res a show False
      by (auto simp: cycle_def split: prod.splits option.splits)
  qed
  from assms m res a st obtain why where "state1 = mark_satisfied s1 why"
    by (auto simp: cycle_def split: sum.splits)
  moreover have "JStr (ascii ''stop'') \<noteq> JStr (ascii ''use_tool'')"
    by (simp add: ascii_def)
  with make_autonomous_decision_result [OF m] res a st have "budget s1 = budget state"
    by auto
  ultimately show ?thesis by (simp add: budget_mark_satisfied)
qed

lemma cycle_Failed:
  assumes "cycle E i state = Failed err state1"
  shows "budget state1 = budget state \<or>
         budget state1 =
           (max_tool_calls state, remaining_calls state - 1, Suc (length (tool_calls state)))"
proof -
  obtain res s1 where m: "make_autonomous_decision E i state = (res, s1)"
    by (cases "make_autonomous_decision E i state")
  from make_autonomous_decision_result [OF m]
  have b1: "budget s1 = budget state \<or>
        budget s1 =
          (max_tool_calls state, remaining_calls state - 1, Suc (length (tool_calls state)))"
    by auto
  show ?thesis
  proof (cases res)
    case (Inl e)
    with assms m b1 show ?thesis by (auto simp: cycle_def)
  next
    case (Inr d)
    obtain r s2 where e: "execute_tool_decision (env_execute E i) d s1 = (r, s2)"
      by (cases "execute_tool_decision (env_execute E i) d s1")
    from assms m Inr e have "state1 = s1 \<or> state1 = s2"
      by (auto simp: cycle_def split: sum.splits if_splits option.splits)
    with budget_execute_tool_decision [OF e] b1 show ?thesis by auto
  qed
qed

subsection \<open>The session\<close>

text \<open>
  How the \<open>while\<close> ends: its condition became false or a decision broke out of it
  (\<open>LoopExit\<close>), or an exception left it (\<open>LoopRaised\<close>). Beside that, the loop
  function keeps the ledger as it stood after every step of every pass, in order; this
  list of observations is not in the source and does not steer the loop.
\<close>

datatype loop_end = LoopExit agent_state | LoopRaised pyerror agent_state

function run_loop :: "env \<Rightarrow> nat \<Rightarrow> agent_state \<Rightarrow> agent_state list \<times> loop_end" where
  "run_loop E i state =
     (if 0 < remaining_calls state \<and> \<not> is_satisfied state then
        (case cycle E i state of
           Continue state1 state2 \<Rightarrow>
             (case run_loop E (Suc i) state2 of
                (observed, fin) \<Rightarrow> (state1 # state2 # observed, fin))
         | Stopped state1 \<Rightarrow> ([state1], LoopExit state1)
         | Failed err state1 \<Rightarrow> ([state1], LoopRaised err state1))
      else ([], LoopExit state))"
  by pat_completeness auto
termination
proof (relation "measure (\<lambda>(E, i, state). nat (remaining_calls state))")
  show "wf (measure (\<lambda>(E, i, state). nat (remaining_calls state)))"
    by simp
next
  fix E :: env and i :: nat and state state1 state2 :: agent_state
  assume go: "0 < remaining_calls state \<and> \<not> is_satisfied state"
    and c: "cycle E i state = Continue state1 state2"
  from cycle_Continue [OF c] have "remaining_calls state2 = remaining_calls state - 1"
    by (simp add: budget_def)
  with go show "((E, Suc i, state2), (E, i, state))
                  \<in> measure (\<lambda>(E, i, state). nat (remaining_calls state))"
    by simp
qed

declare run_loop.simps [simp del]

text \<open>
  The report of a session, with the parts of it that say how the session ended.
  Counting the uses of each tool hashes the recorded names.
\<close>

datatype completion = SUCCESS | INCOMPLETE | ERROR

record session_report =
  completion_status :: completion
  report_is_satisfied :: bool
  report_stop_reason :: json
  report_best_solution :: "json option"
  report_best_quality_score :: int
  total_tool_calls :: nat
  state_data :: agent_state

fun hashable :: "json \<Rightarrow> bool" where
  "hashable (JArr xs) = False"
| "hashable (JObj d) = False"
| "hashable v = True"

definition generate_session_report :: "agent_state \<Rightarrow> pyerror + session_report" where
  "generate_session_report state =
     (case find (\<lambda>c. \<not> hashable (call_tool_name c)) (tool_calls state) of
        Some c \<Rightarrow>
          Inl (Exc TypeError (ascii ''unhashable type: '' @ quoted (type_name (call_tool_name c))))
      | None \<Rightarrow>
          Inr \<lparr>completion_status = (if is_satisfied state then SUCCESS else INCOMPLETE),
               report_is_satisfied = is_satisfied state,
               report_stop_reason = stop_reason state,
               report_best_solution = best_solution state,
               report_best_quality_score = best_quality_score state,
               total_tool_calls = length (tool_calls state),
               state_data = state\<rparr>)"

definition generate_error_report :: "agent_state \<Rightarrow> pyerror \<Rightarrow> session_report" where
  "generate_error_report state err =
     \<lparr>completion_status = ERROR,
      report_is_satisfied = False,
      report_stop_reason = JStr (ascii ''Session error: '' @ error_text err),
      report_best_solution = best_solution state,
      report_best_quality_score = best_quality_score state,
      total_tool_calls = length (tool_calls state),
      state_data = state\<rparr>"

text \<open>\<open>solve_problem\<close>, for an agent constructed with \<open>max_tool_calls\<close>.\<close>

definition solve_problem :: "env \<Rightarrow> int \<Rightarrow> pystr \<Rightarrow> session_report" where
  "solve_problem E max_calls problem =
     (case run_loop E 0 (new_agent_state problem max_calls) of
        (observed, LoopExit state) \<Rightarrow>
          (case generate_session_report state of
             Inl err \<Rightarrow> generate_error_report state err
           | Inr report \<Rightarrow> report)
      | (observed, LoopRaised err state) \<Rightarrow> generate_error_report state err)"

subsection \<open>The budget invariant\<close>

definition within_budget :: "int \<Rightarrow> agent_state \<Rightarrow> bool" where
  "within_budget max_calls state \<longleftrightarrow>
     max_tool_calls state = max_calls \<and>
     remaining_calls state = max_calls - int (length (tool_calls state)) \<and>
     0 \<le> remaining_calls state"

lemma run_loop_done:
  assumes "\<not> (0 < remaining_calls state \<and> \<not> is_satisfied state)"
  shows "run_loop E i state = ([], LoopExit state)"
  by (subst run_loop.simps) (simp only: assms if_False)

lemma run_loop_go:
  assumes "0 < remaining_calls state \<and> \<not> is_satisfied state"
  shows "run_loop E i state =
           (case cycle E i state of
              Continue state1 state2 \<Rightarrow>
                (case run_loop E (Suc i) state2 of
                   (observed, fin) \<Rightarrow> (state1 # state2 # observed, fin))
            | Stopped state1 \<Rightarrow> ([state1], LoopExit state1)
            | Failed err state1 \<Rightarrow> ([state1], LoopRaised err state1))"
  by (subst run_loop.simps) (simp only: assms if_True simp_thms)

lemma run_loop_exhausted:
  "remaining_calls state \<le> 0 \<Longrightarrow> run_loop E i state = ([], LoopExit state)"
  by (rule run_loop_done) simp

lemma within_budget_new: "0 \<le> max_calls \<Longrightarrow> within_budget max_calls (new_agent_state p max_calls)"
  by (simp add: within_budget_def new_agent_state_def)

lemma within_budget_step:
  assumes "within_budget m state" and "0 < remaining_calls state"
    and "budget state' = budget state \<or>
         budget state' =
           (max_tool_calls state, remaining_calls state - 1, Suc (length (tool_calls state)))"
  shows "within_budget m state' \<and> remaining_calls state' \<le> remaining_calls state"
  using assms by (auto simp: within_budget_def budget_def)

lemma run_loop_within_budget:
  assumes "within_budget m state"
  shows "list_all (within_budget m) (fst (run_loop E i state)) \<and>
         sorted_wrt (\<lambda>a b. remaining_calls b \<le> remaining_calls a)
           (state # fst (run_loop E i state))"
  using assms
proof (induction E i state rule: run_loop.induct)
  case (1 E i state)
  show ?case
  proof (cases "0 < remaining_calls state \<and> \<not> is_satisfied state")
    case False
    then show ?thesis by (simp add: run_loop_done)
  next
    case True
    then have pos: "0 < remaining_calls state" by simp
    show ?thesis
    proof (cases "cycle E i state")
      case (Stopped state1)
      from cycle_Stopped [OF Stopped] within_budget_step [OF "1.prems" pos]
      have "within_budget m state1 \<and> remaining_calls state1 \<le> remaining_calls state"
        by blast
      with Stopped show ?thesis by (simp add: run_loop_go [OF True])
    next
      case (Failed err state1)
      from cycle_Failed [OF Failed] within_budget_step [OF "1.prems" pos]
      have "within_budget m state1 \<and> remaining_calls state1 \<le> remaining_calls state"
        by blast
      with Failed show ?thesis by (simp add: run_loop_go [OF True])
    next
      case (Continue state1 state2)
      from cycle_Continue [OF Continue] within_budget_step [OF "1.prems" pos, of state1]
      have w1: "within_budget m state1" and le1: "remaining_calls state1 \<le> remaining_calls state"
        by simp_all
      from cycle_Continue [OF Continue] w1 have w2: "within_budget m state2"
        and eq2: "remaining_calls state2 = remaining_calls state1"
        by (simp_all add: within_budget_def budget_def)
      from "1.IH" [OF True Continue w2]
      have ih: "list_all (within_budget m) (fst (run_loop E (Suc i) state2))"
        "sorted_wrt (\<lambda>a b. remaining_calls b \<le> remaining_calls a)
           (state2 # fst (run_loop E (Suc i) state2))"
        by simp_all
      obtain observed fin where r: "run_loop E (Suc i) state2 = (observed, fin)"
        by (cases "run_loop E (Suc i) state2")
      with Continue have this_run: "fst (run_loop E i state) = state1 # state2 # observed"
        by (simp add: run_loop_go [OF True])
      from ih r have obs: "list_all (within_budget m) observed"
        and srt: "sorted_wrt (\<lambda>a b. remaining_calls b \<le> remaining_calls a) (state2 # observed)"
        by simp_all
      from srt have below2: "\<forall>x \<in> set observed. remaining_calls x \<le> remaining_calls state2"
        by simp
      from w1 w2 obs have "list_all (within_budget m) (state1 # state2 # observed)"
        by simp
      moreover from srt below2 le1 eq2
      have "sorted_wrt (\<lambda>a b. remaining_calls b \<le> remaining_calls a)
              (state # state1 # state2 # observed)"
        by auto
      ultimately show ?thesis by (simp only: this_run)
    qed
  qed
qed

lemma run_loop_end:
  "(case snd (run_loop E i state) of LoopExit s \<Rightarrow> s | LoopRaised err s \<Rightarrow> s) =
     last (state # fst (run_loop E i state))"
proof (induction E i state rule: run_loop.induct)
  case (1 E i state)
  show ?case
  proof (cases "0 < remaining_calls state \<and> \<not> is_satisfied state")
    case False
    then show ?thesis by (simp add: run_loop_done)
  next
    case True
    show ?thesis
    proof (cases "cycle E i state")
      case (Stopped state1)
      then show ?thesis by (simp add: run_loop_go [OF True])
    next
      case (Failed err state1)
      then show ?thesis by (simp add: run_loop_go [OF True])
    next
      case (Continue state1 state2)
      obtain observed fin where r: "run_loop E (Suc i) state2 = (observed, fin)"
        by (cases "run_loop E (Suc i) state2")
      from "1.IH" [OF True Continue] r
      have "(case fin of LoopExit s \<Rightarrow> s | LoopRaised err s \<Rightarrow> s) = last (state2 # observed)"
        by simp
      with Continue r show ?thesis by (simp add: run_loop_go [OF True])
    qed
  qed
qed

text \<open>Example worlds: an oracle that answers with the empty text and capabilities that
  report failure; and an oracle whose call raises.\<close>

definition silent_env :: env where
  "silent_env =
     \<lparr>env_lower = ascii_lower,
      env_loads = loads_fails,
      env_complete = (\<lambda>i state. Inr []),
      env_execute = (\<lambda>i name params.
         Inr \<lparr>res_success = False, res_result = None,
              res_error = Some (ascii ''Thinking tool error: unavailable'')\<rparr>)\<rparr>"

definition faulty_env :: env where
  "faulty_env =
     \<lparr>env_lower = ascii_lower,
      env_loads = loads_fails,
      env_complete = (\<lambda>i state. Inl (Exc OtherError (ascii ''connection refused''))),
      env_execute = (\<lambda>i name params.
         Inr \<lparr>res_success = False, res_result = None,
              res_error = Some (ascii ''Thinking tool error: unavailable'')\<rparr>)\<rparr>"

text \<open>
  C1, as stated (in every session the remaining budget never goes negative), fails for
  a session configured with a negative maximum: the ledger starts with that maximum as
  its remaining budget, the loop does not run, and the report carries a ledger whose
  remaining budget is \<open>- 1\<close>.
\<close>

theorem negative_budget_session:
  "remaining_calls (state_data (solve_problem silent_env (- 1) [])) = - 1 \<and>
   completion_status (solve_problem silent_env (- 1) []) = INCOMPLETE"
proof -
  have "run_loop silent_env 0 (new_agent_state [] (- 1)) =
          ([], LoopExit (new_agent_state [] (- 1)))"
    by (rule run_loop_exhausted) (simp add: new_agent_state_def)
  then show ?thesis
    by (simp add: solve_problem_def generate_session_report_def new_agent_state_def)
qed

text \<open>
  C1, amended: for every session run by the control loop with a configured maximum
  that is not negative, at every point observed (the fresh ledger, the ledger after an
  invocation was recorded, the ledger after it was dispatched and assessed) the
  remaining budget is the maximum minus the number of recorded invocations and is not
  negative; it never increases from one observation to the next; the report counts no
  more invocations than the maximum; and the loop, reaching its head with no budget
  left, ends without another decision or dispatch, satisfied or not.
\<close>

theorem budget_invariant:
  assumes "0 \<le> max_calls"
  shows "list_all
           (\<lambda>state. remaining_calls state = max_calls - int (length (tool_calls state)) \<and>
                    0 \<le> remaining_calls state)
           (new_agent_state problem max_calls #
            fst (run_loop E 0 (new_agent_state problem max_calls))) \<and>
         sorted_wrt (\<lambda>a b. remaining_calls b \<le> remaining_calls a)
           (new_agent_state problem max_calls #
            fst (run_loop E 0 (new_agent_state problem max_calls))) \<and>
         int (total_tool_calls (solve_problem E max_calls problem)) \<le> max_calls \<and>
         (\<forall>i state. remaining_calls state \<le> 0 \<longrightarrow> run_loop E i state = ([], LoopExit state))"
proof -
  let ?s0 = "new_agent_state problem max_calls"
  let ?obs = "fst (run_loop E 0 ?s0)"
  have w0: "within_budget max_calls ?s0"
    by (rule within_budget_new [OF assms])
  from run_loop_within_budget [OF w0, of E 0]
  have all: "list_all (within_budget max_calls) (?s0 # ?obs)"
    and srt: "sorted_wrt (\<lambda>a b. remaining_calls b \<le> remaining_calls a) (?s0 # ?obs)"
    using w0 by simp_all
  have 1: "list_all
           (\<lambda>state. remaining_calls state = max_calls - int (length (tool_calls state)) \<and>
                    0 \<le> remaining_calls state) (?s0 # ?obs)"
    using all by (auto simp: list_all_iff within_budget_def)
  obtain observed fin where r: "run_loop E 0 ?s0 = (observed, fin)"
    by (cases "run_loop E 0 ?s0")
  let ?final = "case fin of LoopExit s \<Rightarrow> s | LoopRaised err s \<Rightarrow> s"
  have "?final = last (?s0 # ?obs)"
    using run_loop_end [of E 0 ?s0] r by simp
  then have "?final \<in> set (?s0 # ?obs)"
    by (metis last_in_set list.distinct(1))
  with all have "within_budget max_calls ?final"
    by (simp only: list_all_iff)
  then have fin_le: "int (length (tool_calls ?final)) \<le> max_calls"
    by (simp add: within_budget_def)
  have "total_tool_calls (solve_problem E max_calls problem) = length (tool_calls ?final)"
    using r
    by (cases fin)
       (simp_all add: solve_problem_def generate_session_report_def generate_error_report_def
          split: option.splits)
  with fin_le have 3: "int (total_tool_calls (solve_problem E max_calls problem)) \<le> max_calls"
    by simp
  from 1 srt 3 show ?thesis
    by (simp add: run_loop_exhausted)
qed

subsection \<open>Scenario A: a budget of one call\<close>

lemma interpret_empty_response:
  "interpret_text_response ascii_lower agent_tools [] state = get_fallback_decision state"
  by (simp add: interpret_text_response_def ascii_lower_def stop_indicators_def agent_tools_def
      ascii_def)

lemma parse_empty_response:
  "parse_llm_decision lower loads tools [] state =
     (case interpret_text_response lower tools [] state of
        Inr d \<Rightarrow> (Inr d, state)
      | Inl err \<Rightarrow>
          (get_fallback_decision (add_thinking state (ParseError (error_text err))),
           add_thinking state (ParseError (error_text err))))"
proof -
  have "\<not> (0 \<le> py_find 123 (strip []) \<and> py_find 123 (strip []) < py_rfind 125 (strip []) + 1)"
    by (simp add: strip_Nil)
  from try_parse_no_braces [OF this, of lower loads tools state] show ?thesis
    by (simp add: parse_llm_decision_cases strip_Nil)
qed

definition first_think :: pydict where
  "first_think =
     think_decision (ascii ''problem analysis'') (ascii ''Starting problem analysis'')
       (ascii ''Fallback: Starting with problem analysis'')"

lemma first_think_items:
  "dict_item first_think (ascii ''action'') = Inr (JStr (ascii ''use_tool''))"
  "dict_item first_think (ascii ''tool'') = Inr (JStr (ascii ''think''))"
  "dict_item first_think (ascii ''reasoning'') =
     Inr (JStr (ascii ''Fallback: Starting with problem analysis''))"
  "dict_item first_think (ascii ''parameters'') =
     Inr (JObj [(ascii ''focus'', JStr (ascii ''problem analysis'')),
                (ascii ''context'', JStr (ascii ''Starting problem analysis''))])"
  by (simp_all add: first_think_def think_decision_def dict_item_def ascii_def)

lemma decide_silent:
  assumes "files_created state = []" and "tool_calls state = []"
  shows "decide_next_action ascii_lower loads_fails agent_tools (\<lambda>state. Inr []) state =
           (Inr first_think, state)"
  using assms
  by (simp add: decide_next_action_def get_recent_actions_def parse_empty_response
      interpret_empty_response get_fallback_decision_def first_think_def)

definition scenario_a_recorded :: agent_state where
  "scenario_a_recorded =
     add_tool_call (new_agent_state [] 1) (JStr (ascii ''think''))
       (JObj [(ascii ''focus'', JStr (ascii ''problem analysis'')),
              (ascii ''context'', JStr (ascii ''Starting problem analysis''))])
       (JStr (ascii ''Fallback: Starting with problem analysis''))"

lemma make_decision_scenario_a:
  "make_autonomous_decision silent_env 0 (new_agent_state [] 1) =
     (Inr first_think, scenario_a_recorded)"
proof -
  have "files_created (new_agent_state [] 1) = []" "tool_calls (new_agent_state [] 1) = []"
    by (simp_all add: new_agent_state_def)
  from decide_silent [OF this] show ?thesis
    by (simp add: make_autonomous_decision_def silent_env_def first_think_items
        scenario_a_recorded_def)
qed

lemma cycle_scenario_a:
  "\<exists>state2. cycle silent_env 0 (new_agent_state [] 1) = Continue scenario_a_recorded state2 \<and>
            \<not> is_satisfied state2"
proof -
  have ne: "JStr (ascii ''use_tool'') \<noteq> JStr (ascii ''stop'')"
    by (simp add: ascii_def)
  obtain r state2 where e:
    "execute_tool_decision (env_execute silent_env 0) first_think scenario_a_recorded = (r, state2)"
    by (cases "execute_tool_decision (env_execute silent_env 0) first_think scenario_a_recorded")
  then have r: "r = None" and sat: "\<not> is_satisfied state2" and q: "best_quality_score state2 = 0"
    by (auto simp: execute_tool_decision_def first_think_items silent_env_def
        process_tool_result_def update_last_tool_call_def add_issue_def scenario_a_recorded_def
        add_tool_call_def new_agent_state_def Let_def)
  have "\<not> is_satisfied (update_agent_assessment state2)"
    using sat q
    by (simp add: update_agent_assessment_def update_confidence_def update_satisfaction_def
        Let_def)
  with e r ne show ?thesis
    by (simp add: cycle_def make_decision_scenario_a first_think_items)
qed

theorem budget_invariant_witness:
  "(0 :: int) \<le> 1 \<and>
   map remaining_calls (fst (run_loop silent_env 0 (new_agent_state [] 1))) = [0, 0] \<and>
   list_all
     (\<lambda>state. remaining_calls state = 1 - int (length (tool_calls state)) \<and>
              0 \<le> remaining_calls state)
     (new_agent_state [] 1 # fst (run_loop silent_env 0 (new_agent_state [] 1))) \<and>
   total_tool_calls (solve_problem silent_env 1 []) = 1 \<and>
   completion_status (solve_problem silent_env 1 []) = INCOMPLETE"
proof -
  let ?s0 = "new_agent_state [] 1"
  from cycle_scenario_a obtain state2
    where c: "cycle silent_env 0 ?s0 = Continue scenario_a_recorded state2"
      and unsat: "\<not> is_satisfied state2"
    by blast
  have go: "0 < remaining_calls ?s0 \<and> \<not> is_satisfied ?s0"
    by (simp add: new_agent_state_def)
  from cycle_Continue [OF c]
  have b1: "budget scenario_a_recorded = (1, 0, 1)" and b2: "budget state2 = (1, 0, 1)"
    by (simp_all add: new_agent_state_def)
  then have rem: "remaining_calls scenario_a_recorded = 0" "remaining_calls state2 = 0"
    and len: "length (tool_calls state2) = 1"
    by (simp_all add: budget_def)
  have rest: "run_loop silent_env (Suc 0) state2 = ([], LoopExit state2)"
    by (rule run_loop_exhausted) (simp add: rem)
  have run: "run_loop silent_env 0 ?s0 = ([scenario_a_recorded, state2], LoopExit state2)"
    by (simp add: run_loop_go [OF go] c rest)
  have hash: "find (\<lambda>c. \<not> hashable (call_tool_name c)) (tool_calls state2) = None"
  proof -
    obtain r s where e:
      "execute_tool_decision (env_execute silent_env 0) first_think scenario_a_recorded = (r, s)"
      by (cases "execute_tool_decision (env_execute silent_env 0) first_think scenario_a_recorded")
    then have names: "map call_tool_name (tool_calls s) = [JStr (ascii ''think'')]"
      by (auto simp: execute_tool_decision_def first_think_items silent_env_def
          process_tool_result_def update_last_tool_call_def add_issue_def
          scenario_a_recorded_def add_tool_call_def new_agent_state_def Let_def)
    have ne: "JStr (ascii ''use_tool'') \<noteq> JStr (ascii ''stop'')"
      by (simp add: ascii_def)
    from c e ne have "state2 = update_agent_assessment s"
      by (auto simp: cycle_def make_decision_scenario_a first_think_items split: option.splits)
    then have "tool_calls state2 = tool_calls s"
      by (simp add: update_agent_assessment_def update_confidence_def update_satisfaction_def
          mark_satisfied_def add_thinking_def Let_def)
    with names have "map call_tool_name (tool_calls state2) = [JStr (ascii ''think'')]"
      by simp
    then have "\<forall>c \<in> set (tool_calls state2). hashable (call_tool_name c)"
      by (cases "tool_calls state2") auto
    then show ?thesis
      by (simp add: find_None_iff)
  qed
  have report: "total_tool_calls (solve_problem silent_env 1 []) = 1"
    "completion_status (solve_problem silent_env 1 []) = INCOMPLETE"
    by (simp_all add: solve_problem_def run generate_session_report_def hash len unsat)
  from budget_invariant [of 1 "[]" silent_env] report run rem show ?thesis
    by simp
qed

subsection \<open>A fault of the oracle\<close>

text \<open>
  C6, as stated (when the call to the oracle raises, the adapter catches the fault and
  turns it into the fallback decision), fails: \<open>decide_next_action\<close> calls the oracle
  outside any \<open>try\<close>, so the exception is what comes back, and on this fresh ledger
  the fallback decision, which would be to think, is never produced.
\<close>

theorem oracle_fault_not_caught:
  "decide_next_action ascii_lower loads_fails agent_tools
     (\<lambda>state. Inl (Exc OtherError (ascii ''connection refused''))) (new_agent_state [] 15) =
     (Inl (Exc OtherError (ascii ''connection refused'')), new_agent_state [] 15) \<and>
   get_fallback_decision (new_agent_state [] 15) =
     Inr (think_decision (ascii ''problem analysis'') (ascii ''Starting problem analysis'')
            (ascii ''Fallback: Starting with problem analysis''))"
  by (simp add: decide_next_action_def get_recent_actions_def get_fallback_decision_def
      new_agent_state_def)

text \<open>
  C6, amended: if the call to the reasoning oracle, made once the prompt is rendered,
  raises during a decision cycle, the adapter does not catch the fault; the exception
  leaves \<open>decide_next_action\<close> with the ledger untouched, no invocation is recorded,
  the pass through the loop is abandoned, and the session-level handler of the control
  loop ends a running session there.
\<close>

theorem oracle_fault_propagates:
  assumes "get_recent_actions state 3 = Inr ()"
    and "env_complete E i state = Inl err"
  shows "decide_next_action (env_lower E) (env_loads E) agent_tools (env_complete E i) state =
           (Inl err, state) \<and>
         cycle E i state = Failed err state \<and>
         (0 < remaining_calls state \<and> \<not> is_satisfied state \<longrightarrow>
            run_loop E i state = ([state], LoopRaised err state))"
proof -
  have d: "decide_next_action (env_lower E) (env_loads E) agent_tools (env_complete E i) state =
             (Inl err, state)"
    using assms by (simp add: decide_next_action_def)
  then have c: "cycle E i state = Failed err state"
    by (simp add: cycle_def make_autonomous_decision_def)
  have "run_loop E i state = ([state], LoopRaised err state)"
    if "0 < remaining_calls state \<and> \<not> is_satisfied state"
    by (simp add: run_loop_go [OF that] c)
  with d c show ?thesis by blast
qed

theorem oracle_fault_propagates_witness:
  "get_recent_actions (new_agent_state [] 15) 3 = Inr () \<and>
   env_complete faulty_env 0 (new_agent_state [] 15) =
     Inl (Exc OtherError (ascii ''connection refused'')) \<and>
   0 < remaining_calls (new_agent_state [] 15) \<and>
   \<not> is_satisfied (new_agent_state [] 15) \<and>
   run_loop faulty_env 0 (new_agent_state [] 15) =
     ([new_agent_state [] 15],
      LoopRaised (Exc OtherError (ascii ''connection refused'')) (new_agent_state [] 15)) \<and>
   completion_status (solve_problem faulty_env 15 []) = ERROR \<and>
   total_tool_calls (solve_problem faulty_env 15 []) = 0"
proof -
  have f: "env_complete faulty_env 0 (new_agent_state [] 15) =
             Inl (Exc OtherError (ascii ''connection refused''))"
    by (simp add: faulty_env_def)
  have p: "get_recent_actions (new_agent_state [] 15) 3 = Inr ()"
    by (simp add: get_recent_actions_def new_agent_state_def)
  have go: "0 < remaining_calls (new_agent_state [] 15) \<and> \<not> is_satisfied (new_agent_state [] 15)"
    by (simp add: new_agent_state_def)
  from oracle_fault_propagates [OF p f] go
  have run: "run_loop faulty_env 0 (new_agent_state [] 15) =
     ([new_agent_state [] 15],
      LoopRaised (Exc OtherError (ascii ''connection refused'')) (new_agent_state [] 15))"
    by blast
  have "solve_problem faulty_env 15 [] =
          generate_error_report (new_agent_state [] 15)
            (Exc OtherError (ascii ''connection refused''))"
    by (simp add: solve_problem_def run)
  then have "completion_status (solve_problem faulty_env 15 []) = ERROR"
    "total_tool_calls (solve_problem faulty_env 15 []) = 0"
    by (simp_all add: generate_error_report_def new_agent_state_def)
  with p f go run show ?thesis by simp
qed

end
